theory Spec2Isabelle
  imports Complex_Main "HOL-Library.Sublist"
begin

section \<open>Data model (types/agent.ts, types/article.ts)\<close>

text \<open>
  JavaScript strings are modelled as HOL strings (lists of characters standing for the
  code units), optional fields as \<open>option\<close>, arrays as lists. Record fields keep the
  source's names; where two interfaces share a field name the second one is prefixed.
\<close>

record Reference =
  title :: string
  url :: string

record SectionContent =
  heading :: string
  content :: string
  references :: "Reference list option"

datatype Priority = HIGH | MEDIUM | LOW

record ProposedEdit =
  sectionHeading :: string
  originalText :: string
  feedback :: string
  newText :: string
  priority :: Priority

datatype AgentRole =
  Outliner | ContentStrategist | Writer | Editor | EditorInChief | Researcher

text \<open>
  \<open>LanguageModelUsage\<close> is the provider library's usage triple. Token counts are
  natural numbers; costs are exact rationals (the source computes them in double
  precision, whose rounding is not modelled).
\<close>

record LanguageModelUsage =
  promptTokens :: nat
  completionTokens :: nat
  totalTokens :: nat

record AgentUsage =
  agentUsage :: "LanguageModelUsage option"
  researcherUsages :: "LanguageModelUsage list option"

text \<open>
  The ledger \<open>usages\<close> of \<open>writeArticle\<close>: one array of records per role other than
  the researcher.
\<close>

record Usages =
  OUTLINER :: "AgentUsage list"
  CONTENT_STRATEGIST :: "AgentUsage list"
  WRITER :: "AgentUsage list"
  EDITOR :: "AgentUsage list"
  EDITOR_IN_CHIEF :: "AgentUsage list"

section \<open>String.prototype.replace with a string pattern\<close>

text \<open>
  \<open>indexOf s pat\<close> is the position of the first occurrence of \<open>pat\<close> in \<open>s\<close>
  (ECMAScript StringIndexOf from position 0), \<open>None\<close> when there is none.
\<close>

fun indexOf :: "string \<Rightarrow> string \<Rightarrow> nat option" where
  "indexOf [] pat = (if pat = [] then Some 0 else None)"
| "indexOf (c # cs) pat =
     (if prefix pat (c # cs) then Some 0 else map_option Suc (indexOf cs pat))"

text \<open>
  ECMAScript GetSubstitution for a string pattern (no captures, no named groups): in the
  replacement template \<open>$$\<close> stands for one dollar sign, \<open>$&\<close> for the matched text,
  dollar-backquote (character 0x60) for the text before the match and dollar-apostrophe
  (character 0x27) for the text after it; a dollar sign followed by anything else (digits
  and \<open>$<\<close> included, there being no captures) is copied as it is.
\<close>

fun getSubstitution :: "string \<Rightarrow> string \<Rightarrow> nat \<Rightarrow> string \<Rightarrow> string" where
  "getSubstitution matched str pos [] = []"
| "getSubstitution matched str pos [c] = [c]"
| "getSubstitution matched str pos (c # d # rest) =
     (if c = CHR ''$'' then
        (if d = CHR ''$'' then CHR ''$'' # getSubstitution matched str pos rest
         else if d = CHR ''&'' then matched @ getSubstitution matched str pos rest
         else if d = CHR 0x60 then take pos str @ getSubstitution matched str pos rest
         else if d = CHR 0x27 then
           drop (pos + length matched) str @ getSubstitution matched str pos rest
         else c # getSubstitution matched str pos (d # rest))
      else c # getSubstitution matched str pos (d # rest))"

definition replace_js :: "string \<Rightarrow> string \<Rightarrow> string \<Rightarrow> string" where
  "replace_js str searchString replaceValue =
     (case indexOf str searchString of
        None \<Rightarrow> str
      | Some pos \<Rightarrow>
          take pos str @ getSubstitution searchString str pos replaceValue
            @ drop (pos + length searchString) str)"

section \<open>Edit applier and renderer (utils/applyEdits.ts)\<close>

text \<open>The body of the inner loop over the proposed edits, for one section.\<close>

definition applyEdit :: "string \<Rightarrow> string \<Rightarrow> ProposedEdit \<Rightarrow> string" where
  "applyEdit sectionHead sectionContent edit =
     (if sectionHeading edit = sectionHead
      then replace_js sectionContent (originalText edit) (newText edit)
      else sectionContent)"

text \<open>The inner loop: \<open>sectionContent\<close> starts as the section's content.\<close>

definition editedContent :: "ProposedEdit list \<Rightarrow> SectionContent \<Rightarrow> string" where
  "editedContent edits sec =
     foldl (applyEdit (heading sec)) (content sec) edits"

text \<open>The body of the outer loop: one section appended to the markdown.\<close>

definition appendSection :: "ProposedEdit list \<Rightarrow> string \<Rightarrow> SectionContent \<Rightarrow> string" where
  "appendSection edits markdown sec =
     markdown @ ''## '' @ heading sec @ ''\<newline>\<newline>''
       @ editedContent edits sec @ ''\<newline>\<newline>''"

definition appendFeedback :: "string \<Rightarrow> string \<Rightarrow> string" where
  "appendFeedback markdown fb = markdown @ ''- '' @ fb @ ''\<newline>''"

definition appendReference :: "string \<Rightarrow> Reference \<Rightarrow> string" where
  "appendReference markdown ref =
     markdown @ ''- ['' @ title ref @ '']('' @ url ref @ '')\<newline>''"

definition allReferences :: "SectionContent list \<Rightarrow> Reference list" where
  "allReferences secs =
     concat (map (\<lambda>s. case references s of None \<Rightarrow> [] | Some rs \<Rightarrow> rs) secs)"

definition applyEditsAndGenerateMarkdown ::
  "string \<Rightarrow> SectionContent list \<Rightarrow> ProposedEdit list \<Rightarrow> string list \<Rightarrow> string" where
  "applyEditsAndGenerateMarkdown ttl secs edits notes =
     (let markdown0 = ''# '' @ ttl @ ''\<newline>\<newline>'';
          markdown1 = foldl (appendSection edits) markdown0 secs;
          markdown2 =
            (if length notes > 0
             then foldl appendFeedback (markdown1 @ ''## Editorial Notes\<newline>\<newline>'')
                    notes @ ''\<newline>''
             else markdown1);
          markdown3 =
            (if length (allReferences secs) > 0
             then foldl appendReference (markdown2 @ ''## References\<newline>\<newline>'')
                    (allReferences secs) @ ''\<newline>''
             else markdown2)
      in markdown3)"

text \<open>The blocks of the rendered document, named for the statements below.\<close>

definition sectionBlock :: "ProposedEdit list \<Rightarrow> SectionContent \<Rightarrow> string" where
  "sectionBlock edits sec =
     ''## '' @ heading sec @ ''\<newline>\<newline>''
       @ editedContent edits sec @ ''\<newline>\<newline>''"

definition notesBlock :: "string list \<Rightarrow> string" where
  "notesBlock notes =
     (if notes = [] then []
      else ''## Editorial Notes\<newline>\<newline>''
             @ concat (map (\<lambda>fb. ''- '' @ fb @ ''\<newline>'') notes)
             @ ''\<newline>'')"

definition referencesBlock :: "SectionContent list \<Rightarrow> string" where
  "referencesBlock secs =
     (if allReferences secs = [] then []
      else ''## References\<newline>\<newline>''
             @ concat (map (\<lambda>r. ''- ['' @ title r @ '']('' @ url r @ '')\<newline>'')
                 (allReferences secs))
             @ ''\<newline>'')"

text \<open>
  The document without what follows the sections: the title line and the section
  blocks. It is what the renderer has built when its loop over the sections ends.
\<close>

definition titleAndSections :: "string \<Rightarrow> SectionContent list \<Rightarrow> ProposedEdit list \<Rightarrow> string" where
  "titleAndSections ttl secs edits =
     ''# '' @ ttl @ ''\<newline>\<newline>'' @ concat (map (sectionBlock edits) secs)"

section \<open>Cost accounting (utils/calculateUsage.ts)\<close>

datatype Model = o1 | gpt_4o | gpt_4o_mini

text \<open>The price table's fields \<open>input\<close> and \<open>output\<close>, in dollars per million tokens.\<close>

record ModelCost =
  inputRate :: rat
  outputRate :: rat

fun COST_PER_1M_TOKENS :: "Model \<Rightarrow> ModelCost" where
  "COST_PER_1M_TOKENS o1 = \<lparr>inputRate = 15, outputRate = 60\<rparr>"
| "COST_PER_1M_TOKENS gpt_4o = \<lparr>inputRate = 25 / 10, outputRate = 10\<rparr>"
| "COST_PER_1M_TOKENS gpt_4o_mini = \<lparr>inputRate = 15 / 100, outputRate = 6 / 10\<rparr>"

record AgentCosts =
  selfCost :: rat
  researcherCost :: rat

record Totals =
  agentCosts :: rat
  researchCosts :: rat

text \<open>
  \<open>UsageCosts\<close>: one \<open>AgentCosts\<close> entry per role and the entry \<open>total\<close>. The five
  role keys of the object are the arguments of \<open>roleCosts\<close>.
\<close>

record UsageCosts =
  roleCosts :: "AgentRole \<Rightarrow> AgentCosts"
  total :: Totals

definition calculateModelCost :: "LanguageModelUsage \<Rightarrow> Model \<Rightarrow> rat" where
  "calculateModelCost usage model =
     (let costs = COST_PER_1M_TOKENS model;
          inputCost = (of_nat (promptTokens usage) / 1000000) * inputRate costs;
          outputCost = (of_nat (completionTokens usage) / 1000000) * outputRate costs
      in inputCost + outputCost)"

definition calculateResearcherCost :: "LanguageModelUsage list option \<Rightarrow> rat" where
  "calculateResearcherCost ru =
     (case ru of
        None \<Rightarrow> 0
      | Some us \<Rightarrow>
          if length us = 0 then 0
          else foldl (\<lambda>tot usage. tot + calculateModelCost usage gpt_4o_mini) 0 us)"

text \<open>\<open>Object.entries(usage)\<close>: the roles in the order the ledger was built with.\<close>

definition entries :: "Usages \<Rightarrow> (AgentRole \<times> AgentUsage list) list" where
  "entries usage =
     [(Outliner, OUTLINER usage), (ContentStrategist, CONTENT_STRATEGIST usage),
      (Writer, WRITER usage), (Editor, EDITOR usage),
      (EditorInChief, EDITOR_IN_CHIEF usage)]"

definition modelOfRole :: "AgentRole \<Rightarrow> Model" where
  "modelOfRole role = (if role = Outliner \<or> role = EditorInChief then o1 else gpt_4o)"

text \<open>
  The body of the loop over one role's records. The guards \<open>if (!agentUsage) continue\<close>
  here and \<open>if (!usage) return total\<close> in \<open>calculateResearcherCost\<close> skip a record that
  is null or undefined; the lists of the declared types have no such element, and the
  ledger built by \<open>writeArticle\<close> holds none.
\<close>

definition addRecord ::
  "AgentRole \<Rightarrow> (AgentRole \<Rightarrow> AgentCosts) \<Rightarrow> AgentUsage \<Rightarrow> (AgentRole \<Rightarrow> AgentCosts)" where
  "addRecord role costs au =
     (let model = modelOfRole role;
          costs1 =
            (case agentUsage au of
               Some u \<Rightarrow>
                 costs(role := (costs role)
                   \<lparr>selfCost := selfCost (costs role) + calculateModelCost u model\<rparr>)
             | None \<Rightarrow> costs);
          researcherCost = calculateResearcherCost (researcherUsages au)
      in costs1(role := (costs1 role)
           \<lparr>researcherCost := AgentCosts.researcherCost (costs1 role) + researcherCost\<rparr>))"

definition addRole ::
  "(AgentRole \<Rightarrow> AgentCosts) \<Rightarrow> AgentRole \<times> AgentUsage list \<Rightarrow> (AgentRole \<Rightarrow> AgentCosts)" where
  "addRole costs entry = foldl (addRecord (fst entry)) costs (snd entry)"

text \<open>
  \<open>Object.values(costs)\<close> filtered to the entries that have a \<open>selfCost\<close> (respectively
  \<open>researcherCost\<close>) key: the five role entries, without \<open>total\<close>.
\<close>

definition roleEntries :: "(AgentRole \<Rightarrow> AgentCosts) \<Rightarrow> AgentCosts list" where
  "roleEntries costs =
     map costs [Outliner, ContentStrategist, Writer, Editor, EditorInChief]"

definition calculateUsage :: "Usages \<Rightarrow> UsageCosts" where
  "calculateUsage usage =
     (let costs0 = (\<lambda>role. \<lparr>selfCost = 0, researcherCost = 0\<rparr>);
          costs = foldl addRole costs0 (entries usage);
          agentTotal = foldl (\<lambda>tot cost. tot + selfCost cost) 0 (roleEntries costs);
          researchTotal = foldl (\<lambda>tot cost. tot + researcherCost cost) 0 (roleEntries costs)
      in \<lparr>roleCosts = costs,
          total = \<lparr>agentCosts = agentTotal, researchCosts = researchTotal\<rparr>\<rparr>)"

text \<open>The cost \<open>writeArticle\<close> returns: \<open>costs.total.agentCosts + costs.total.researchCosts\<close>.\<close>

definition totalCost :: "UsageCosts \<Rightarrow> rat" where
  "totalCost costs = agentCosts (total costs) + researchCosts (total costs)"

text \<open>
  What one token record costs at a model's rates, per million tokens; used to state the
  accounting property.
\<close>

definition tokenCost :: "Model \<Rightarrow> LanguageModelUsage \<Rightarrow> rat" where
  "tokenCost model u =
     (of_nat (promptTokens u) * inputRate (COST_PER_1M_TOKENS model)
        + of_nat (completionTokens u) * outputRate (COST_PER_1M_TOKENS model)) / 1000000"

definition selfUsages :: "AgentUsage list \<Rightarrow> LanguageModelUsage list" where
  "selfUsages rs = concat (map (\<lambda>r. case agentUsage r of None \<Rightarrow> [] | Some u \<Rightarrow> [u]) rs)"

definition nestedUsages :: "AgentUsage list \<Rightarrow> LanguageModelUsage list" where
  "nestedUsages rs =
     concat (map (\<lambda>r. case researcherUsages r of None \<Rightarrow> [] | Some us \<Rightarrow> us) rs)"

section \<open>Data model of the orchestration (types/agent.ts, types/article.ts)\<close>

record SubSection =
  subHeading :: string
  subLevel :: int

record OutlineSection =
  secHeading :: string
  level :: int
  subSections :: "SubSection list option"

record ArticleOutline =
  outlineTitle :: string
  sections :: "OutlineSection list"

text \<open>
  An outline with other nesting fields: every section keeps its heading and its place
  and gets the \<open>level\<close> and the \<open>subSections\<close> that \<open>lv\<close> and \<open>subs\<close> give it.
\<close>

definition renestSection ::
  "(OutlineSection \<Rightarrow> int) \<Rightarrow> (OutlineSection \<Rightarrow> SubSection list option)
     \<Rightarrow> OutlineSection \<Rightarrow> OutlineSection" where
  "renestSection lv subs sec = sec\<lparr>level := lv sec, subSections := subs sec\<rparr>"

definition renest ::
  "(OutlineSection \<Rightarrow> int) \<Rightarrow> (OutlineSection \<Rightarrow> SubSection list option)
     \<Rightarrow> ArticleOutline \<Rightarrow> ArticleOutline" where
  "renest lv subs outline =
     outline\<lparr>sections := map (renestSection lv subs) (sections outline)\<rparr>"

record SectionPlan =
  planHeading :: string
  keyPoints :: "string list"
  planReferences :: "Reference list option"

record SectionFeedback =
  approved :: bool
  feedbackPoints :: "string list"

record ArticleInput =
  subject :: string
  customInstructions :: "string option"

text \<open>The \<open>feedback\<close> argument of the writer: the local \<open>currentFeedback\<close>.\<close>

record WriterFeedback =
  previousContent :: SectionContent
  editorFeedback :: SectionFeedback

text \<open>The \<open>feedback\<close> argument of the editor.\<close>

record EditorFeedback =
  priorContent :: SectionContent
  previousFeedback :: SectionFeedback
  writerResponse :: "string option"

record WriterOutput =
  writtenContent :: SectionContent
  responseToEditorFeedback :: "string option"
  writerUsage :: AgentUsage

record FinalReview =
  finalArticleTitle :: string
  globalFeedback :: "string list"
  proposedEdits :: "ProposedEdit list"
  chiefUsage :: AgentUsage

text \<open>
  What a rejected call carries. \<open>AgentError\<close> stands for whatever an agent's \<open>run\<close>
  raises (a provider failure, an output that does not fit the schema); \<open>Error\<close> is the
  \<open>new Error(message)\<close> that \<open>writeArticle\<close> itself throws.
\<close>

datatype error = AgentError string | Error string

text \<open>
  The five agents are outside the orchestration: each \<open>run\<close> is a parameter, a function
  from the fields of its input object to the value its promise is fulfilled with
  (\<open>Inr\<close>) or rejected with (\<open>Inl\<close>). The answer of a call is so determined by its
  input: a language model that answers two calls on equal inputs differently, or a
  call whose answer depends on what the search cache holds when it is made, is not
  described by one value of \<open>Agents\<close>. Every theorem below holds for all values of
  \<open>Agents\<close>, whatever the functions are.
\<close>

record Agents =
  outliner :: "string \<Rightarrow> string option \<Rightarrow> error + ArticleOutline \<times> AgentUsage"
  contentStrategist ::
    "ArticleOutline \<Rightarrow> OutlineSection \<Rightarrow> string option \<Rightarrow> SectionPlan list
       \<Rightarrow> error + SectionPlan \<times> AgentUsage"
  writer :: "SectionPlan \<Rightarrow> string option \<Rightarrow> WriterFeedback option \<Rightarrow> error + WriterOutput"
  editor ::
    "SectionContent \<Rightarrow> string option \<Rightarrow> EditorFeedback option
       \<Rightarrow> error + SectionFeedback \<times> AgentUsage"
  editorInChief ::
    "ArticleInput \<Rightarrow> ArticleOutline \<Rightarrow> SectionPlan list \<Rightarrow> SectionContent list
       \<Rightarrow> error + FinalReview"

section \<open>Phase 2: the content strategy loop (orchestration, lines 48 to 71)\<close>

definition emptyUsages :: Usages where
  "emptyUsages =
     \<lparr>OUTLINER = [], CONTENT_STRATEGIST = [], WRITER = [], EDITOR = [], EDITOR_IN_CHIEF = []\<rparr>"

text \<open>One ledger followed by another, role by role.\<close>

definition appendUsages :: "Usages \<Rightarrow> Usages \<Rightarrow> Usages" where
  "appendUsages a b =
     \<lparr>OUTLINER = OUTLINER a @ OUTLINER b,
      CONTENT_STRATEGIST = CONTENT_STRATEGIST a @ CONTENT_STRATEGIST b,
      WRITER = WRITER a @ WRITER b,
      EDITOR = EDITOR a @ EDITOR b,
      EDITOR_IN_CHIEF = EDITOR_IN_CHIEF a @ EDITOR_IN_CHIEF b\<rparr>"

text \<open>
  The \<open>for\<close> loop over \<open>articleOutline.sections\<close>: the sections still to plan, the array
  \<open>contentStrategy\<close> and the ledger. An agent failure leaves the loop with the error.
\<close>

fun strategyLoop ::
  "Agents \<Rightarrow> ArticleOutline \<Rightarrow> string option \<Rightarrow> OutlineSection list \<Rightarrow> SectionPlan list
     \<Rightarrow> Usages \<Rightarrow> (error + SectionPlan list) \<times> Usages" where
  "strategyLoop ag articleOutline ci [] contentStrategy us = (Inr contentStrategy, us)"
| "strategyLoop ag articleOutline ci (sec # rest) contentStrategy us =
     (case contentStrategist ag articleOutline sec ci contentStrategy of
        Inl e \<Rightarrow> (Inl e, us)
      | Inr (result, usage) \<Rightarrow>
          strategyLoop ag articleOutline ci rest (contentStrategy @ [result])
            (us\<lparr>CONTENT_STRATEGIST := CONTENT_STRATEGIST us @ [usage]\<rparr>))"

section \<open>Phase 3: one section's revision loop (orchestration, lines 83 to 150)\<close>

definition MAX_ITERATIONS :: nat where
  "MAX_ITERATIONS = 3"

text \<open>The locals of the per-section callback.\<close>

record SectionState =
  isApproved :: bool
  iterations :: nat
  currentContent :: "SectionContent option"
  currentFeedback :: "WriterFeedback option"

definition initialState :: SectionState where
  "initialState =
     \<lparr>isApproved = False, iterations = 0, currentContent = None, currentFeedback = None\<rparr>"

text \<open>The \<open>feedback\<close> field of the editor's input, built from \<open>currentFeedback\<close>.\<close>

definition editorFeedbackOf :: "WriterFeedback option \<Rightarrow> WriterOutput \<Rightarrow> EditorFeedback option" where
  "editorFeedbackOf cf writerResult =
     (case cf of
        None \<Rightarrow> None
      | Some f \<Rightarrow>
          Some \<lparr>priorContent = previousContent f, previousFeedback = editorFeedback f,
                writerResponse = responseToEditorFeedback writerResult\<rparr>)"

text \<open>
  The statements after the editor's answer (lines 123 to 139): the verdict is stored,
  and a rejection below the iteration limit becomes the next \<open>currentFeedback\<close>. The
  loop assigns \<open>currentContent\<close> before it asks the editor, so the branch for an
  undefined \<open>currentContent\<close> is never taken there.
\<close>

definition afterReview :: "SectionState \<Rightarrow> SectionFeedback \<Rightarrow> SectionState" where
  "afterReview st editorResult =
     (let st1 = st\<lparr>isApproved := approved editorResult\<rparr>
      in if isApproved st1 then st1
         else if iterations st1 < MAX_ITERATIONS then
           (case currentContent st1 of
              Some c \<Rightarrow>
                st1\<lparr>currentFeedback :=
                      Some \<lparr>previousContent = c, editorFeedback = editorResult\<rparr>\<rparr>
            | None \<Rightarrow> st1)
         else st1)"

text \<open>
  The \<open>while\<close> loop read as a sequential program: every \<open>await\<close> returns its value or
  raises.
\<close>

function sectionLoop ::
  "Agents \<Rightarrow> string option \<Rightarrow> SectionPlan \<Rightarrow> SectionState \<Rightarrow> Usages
     \<Rightarrow> (error + SectionState) \<times> Usages" where
  "sectionLoop ag ci sectionPlan st us =
     (if \<not> isApproved st \<and> iterations st < MAX_ITERATIONS then
        (let st1 = st\<lparr>iterations := iterations st + 1\<rparr>
         in case writer ag sectionPlan ci (currentFeedback st1) of
              Inl e \<Rightarrow> (Inl e, us)
            | Inr writerResult \<Rightarrow>
                (let us1 = us\<lparr>WRITER := WRITER us @ [writerUsage writerResult]\<rparr>;
                     st2 = st1\<lparr>currentContent := Some (writtenContent writerResult)\<rparr>
                 in case editor ag (writtenContent writerResult) ci
                           (editorFeedbackOf (currentFeedback st2) writerResult) of
                      Inl e \<Rightarrow> (Inl e, us1)
                    | Inr (editorResult, usage) \<Rightarrow>
                        sectionLoop ag ci sectionPlan (afterReview st2 editorResult)
                          (us1\<lparr>EDITOR := EDITOR us1 @ [usage]\<rparr>)))
      else (Inr st, us))"
  by pat_completeness auto
termination
  by (relation "measure (\<lambda>(ag, ci, sectionPlan, st, us). MAX_ITERATIONS - iterations st)")
    (auto simp: afterReview_def Let_def split: option.splits)

declare sectionLoop.simps [simp del]

text \<open>The statements after the loop (lines 142 to 150).\<close>

definition finish :: "SectionPlan \<Rightarrow> SectionState \<Rightarrow> error + SectionContent" where
  "finish sectionPlan st =
     (case currentContent st of
        Some c \<Rightarrow> Inr c
      | None \<Rightarrow>
          Inl (Error (''Failed to generate content for section: '' @ planHeading sectionPlan)))"

text \<open>The whole callback of \<open>contentStrategy.map\<close>, run on its own.\<close>

definition processSection ::
  "Agents \<Rightarrow> string option \<Rightarrow> SectionPlan \<Rightarrow> Usages \<Rightarrow> (error + SectionContent) \<times> Usages" where
  "processSection ag ci sectionPlan us =
     (case sectionLoop ag ci sectionPlan initialState us of
        (Inl e, us') \<Rightarrow> (Inl e, us')
      | (Inr st, us') \<Rightarrow> (finish sectionPlan st, us'))"

section \<open>Phase 3: the callbacks under \<open>Promise.all\<close> (orchestration, line 81)\<close>

text \<open>
  \<open>contentStrategy.map\<close> starts one callback per plan, and each runs up to its first
  \<open>await\<close>. From then on a callback advances when the call it awaits settles, from one
  \<open>await\<close> to the next; which pending call settles next is the environment's choice.
  A task is a callback between two such moves: its plan, its locals and what it waits
  for.
\<close>

datatype TaskStatus =
  AwaitWriter
| AwaitEditor WriterOutput
| Fulfilled SectionContent
| Rejected error

record Task =
  taskPlan :: SectionPlan
  locals :: SectionState
  status :: TaskStatus

text \<open>
  The loop test, and what follows it up to the next \<open>await\<close> or to the end of the
  callback.
\<close>

definition enterLoop :: "SectionPlan \<Rightarrow> SectionState \<Rightarrow> Task" where
  "enterLoop sectionPlan st =
     (if \<not> isApproved st \<and> iterations st < MAX_ITERATIONS then
        \<lparr>taskPlan = sectionPlan, locals = st\<lparr>iterations := iterations st + 1\<rparr>,
         status = AwaitWriter\<rparr>
      else
        \<lparr>taskPlan = sectionPlan, locals = st,
         status = (case finish sectionPlan st of Inr c \<Rightarrow> Fulfilled c | Inl e \<Rightarrow> Rejected e)\<rparr>)"

definition startTask :: "SectionPlan \<Rightarrow> Task" where
  "startTask sectionPlan = enterLoop sectionPlan initialState"

text \<open>
  One move of a task: the awaited call settles and the callback runs on to its next
  \<open>await\<close>, to its \<open>return\<close> or to the rejection. A settled task does not move.
\<close>

definition resume :: "Agents \<Rightarrow> string option \<Rightarrow> Task \<Rightarrow> Usages \<Rightarrow> Task \<times> Usages" where
  "resume ag ci t us =
     (case status t of
        AwaitWriter \<Rightarrow>
          (case writer ag (taskPlan t) ci (currentFeedback (locals t)) of
             Inl e \<Rightarrow> (t\<lparr>status := Rejected e\<rparr>, us)
           | Inr writerResult \<Rightarrow>
               (t\<lparr>locals := (locals t)\<lparr>currentContent := Some (writtenContent writerResult)\<rparr>,
                  status := AwaitEditor writerResult\<rparr>,
                us\<lparr>WRITER := WRITER us @ [writerUsage writerResult]\<rparr>))
      | AwaitEditor writerResult \<Rightarrow>
          (case editor ag (writtenContent writerResult) ci
                  (editorFeedbackOf (currentFeedback (locals t)) writerResult) of
             Inl e \<Rightarrow> (t\<lparr>status := Rejected e\<rparr>, us)
           | Inr (editorResult, usage) \<Rightarrow>
               (enterLoop (taskPlan t) (afterReview (locals t) editorResult),
                us\<lparr>EDITOR := EDITOR us @ [usage]\<rparr>))
      | Fulfilled c \<Rightarrow> (t, us)
      | Rejected e \<Rightarrow> (t, us))"

definition fulfilled :: "Task \<Rightarrow> bool" where
  "fulfilled t = (case status t of Fulfilled c \<Rightarrow> True | _ \<Rightarrow> False)"

definition valueOf :: "Task \<Rightarrow> SectionContent option" where
  "valueOf t = (case status t of Fulfilled c \<Rightarrow> Some c | _ \<Rightarrow> None)"

text \<open>
  \<open>Promise.all\<close> over the tasks. The schedule lists, in the order of time, the index of
  the task whose awaited call settles next. The promise is fulfilled once every task is
  fulfilled, with the values in the order of the tasks; it is rejected by the first task
  that is rejected, with that task's error; while the schedule leaves a task waiting it
  stays pending (\<open>None\<close>). An entry that names no waiting task changes nothing.
\<close>

fun promiseAll ::
  "Agents \<Rightarrow> string option \<Rightarrow> nat list \<Rightarrow> Task list \<Rightarrow> Usages
     \<Rightarrow> (error + SectionContent list) option \<times> Usages" where
  "promiseAll ag ci [] tasks us =
     (if list_all fulfilled tasks then (Some (Inr (List.map_filter valueOf tasks)), us)
      else (None, us))"
| "promiseAll ag ci (i # schedule) tasks us =
     (if list_all fulfilled tasks then (Some (Inr (List.map_filter valueOf tasks)), us)
      else if i < length tasks then
        (case resume ag ci (tasks ! i) us of
           (t, us') \<Rightarrow>
             (case status t of
                Rejected e \<Rightarrow> (Some (Inl e), us')
              | _ \<Rightarrow> promiseAll ag ci schedule (tasks[i := t]) us'))
      else promiseAll ag ci schedule tasks us)"

definition fanOut ::
  "Agents \<Rightarrow> string option \<Rightarrow> nat list \<Rightarrow> SectionPlan list \<Rightarrow> Usages
     \<Rightarrow> (error + SectionContent list) option \<times> Usages" where
  "fanOut ag ci schedule contentStrategy us =
     promiseAll ag ci schedule (map startTask contentStrategy) us"

section \<open>A task run on its own\<close>

text \<open>
  \<open>runTask\<close> moves one task until it is settled, with no other task in between. The
  number of moves left is bounded by \<open>movesLeft\<close>: two per iteration still allowed.
\<close>

definition pending :: "Task \<Rightarrow> bool" where
  "pending t =
     (case status t of AwaitWriter \<Rightarrow> True | AwaitEditor w \<Rightarrow> True
      | Fulfilled c \<Rightarrow> False | Rejected e \<Rightarrow> False)"

definition movesLeft :: "Task \<Rightarrow> nat" where
  "movesLeft t =
     (case status t of
        AwaitWriter \<Rightarrow> 2 * (MAX_ITERATIONS - iterations (locals t)) + 2
      | AwaitEditor w \<Rightarrow> 2 * (MAX_ITERATIONS - iterations (locals t)) + 1
      | Fulfilled c \<Rightarrow> 0
      | Rejected e \<Rightarrow> 0)"

function runTask :: "Agents \<Rightarrow> string option \<Rightarrow> Task \<Rightarrow> Usages \<Rightarrow> Task \<times> Usages" where
  "runTask ag ci t us =
     (if pending t then (case resume ag ci t us of (t', us') \<Rightarrow> runTask ag ci t' us')
      else (t, us))"
  by pat_completeness auto
termination
  by (relation "measure (\<lambda>(ag, ci, t, us). movesLeft t)")
    (auto simp: pending_def movesLeft_def resume_def enterLoop_def afterReview_def Let_def
      MAX_ITERATIONS_def split: TaskStatus.splits sum.splits option.splits if_splits)

declare runTask.simps [simp del]

text \<open>How the callback ends after the loop has ended with \<open>r\<close>.\<close>

definition settle :: "SectionPlan \<Rightarrow> error + SectionState \<Rightarrow> TaskStatus" where
  "settle p r =
     (case r of
        Inl e \<Rightarrow> Rejected e
      | Inr st \<Rightarrow> (case finish p st of Inr c \<Rightarrow> Fulfilled c | Inl e \<Rightarrow> Rejected e))"

definition outcome :: "Agents \<Rightarrow> string option \<Rightarrow> Task \<Rightarrow> TaskStatus" where
  "outcome ag ci t = status (fst (runTask ag ci t emptyUsages))"

text \<open>The records a task run on its own still adds to the ledger.\<close>

definition writerPushesLeft :: "Agents \<Rightarrow> string option \<Rightarrow> Task \<Rightarrow> nat" where
  "writerPushesLeft ag ci t = length (WRITER (snd (runTask ag ci t emptyUsages)))"

definition editorPushesLeft :: "Agents \<Rightarrow> string option \<Rightarrow> Task \<Rightarrow> nat" where
  "editorPushesLeft ag ci t = length (EDITOR (snd (runTask ag ci t emptyUsages)))"

text \<open>
  The task a callback has become once \<open>k\<close> of the calls it awaited have settled. The
  ledger plays no part in a move, so the moves are made on the empty one.
\<close>

fun advance :: "Agents \<Rightarrow> string option \<Rightarrow> nat \<Rightarrow> Task \<Rightarrow> Task" where
  "advance ag ci 0 t = t"
| "advance ag ci (Suc k) t = advance ag ci k (fst (resume ag ci t emptyUsages))"

definition rejected :: "Task \<Rightarrow> bool" where
  "rejected t = (case status t of Rejected e \<Rightarrow> True | _ \<Rightarrow> False)"

section \<open>The pipeline (orchestration, \<open>writeArticle\<close>)\<close>

text \<open>
  What a completed run has computed: the object written as \<open>articleData.json\<close>, without
  the input and the time taken.
\<close>

record ArticleData =
  articleOutline :: ArticleOutline
  contentStrategy :: "SectionPlan list"
  generatedSections :: "SectionContent list"
  finalReview :: FinalReview
  finalMarkdown :: string
  usages :: Usages
  costs :: UsageCosts

text \<open>
  The body of the \<open>try\<close> block: phases 1 to 3 in \<open>runPipeline\<close>, phases 4 and 5 in
  \<open>finalReviewPhase\<close>. \<open>Some (Inl e)\<close>: the run raised \<open>e\<close>; \<open>None\<close>: a call of
  phase 3 never settled and the run never returns. The calls awaited one after the
  other (the outliner's, the strategist's, the editor in chief's) are taken to settle:
  each is fulfilled or rejected. The writes of intermediate files and the console
  output are left out.
\<close>

definition finalReviewPhase ::
  "Agents \<Rightarrow> ArticleInput \<Rightarrow> ArticleOutline \<Rightarrow> SectionPlan list \<Rightarrow> SectionContent list
     \<Rightarrow> Usages \<Rightarrow> error + ArticleData" where
  "finalReviewPhase ag inp outline plans sectionContents us3 =
     (case editorInChief ag inp outline plans sectionContents of
        Inl e \<Rightarrow> Inl e
      | Inr review \<Rightarrow>
          (let us4 = us3\<lparr>EDITOR_IN_CHIEF := EDITOR_IN_CHIEF us3 @ [chiefUsage review]\<rparr>
           in Inr
                \<lparr>articleOutline = outline,
                 contentStrategy = plans,
                 generatedSections = sectionContents,
                 finalReview = review,
                 finalMarkdown =
                   applyEditsAndGenerateMarkdown (finalArticleTitle review) sectionContents
                     (proposedEdits review) (globalFeedback review),
                 usages = us4,
                 costs = calculateUsage us4\<rparr>))"

definition runPipeline :: "Agents \<Rightarrow> nat list \<Rightarrow> ArticleInput \<Rightarrow> (error + ArticleData) option" where
  "runPipeline ag schedule inp =
     (case outliner ag (subject inp) (customInstructions inp) of
        Inl e \<Rightarrow> Some (Inl e)
      | Inr (outline, outlineUsage) \<Rightarrow>
          (case strategyLoop ag outline (customInstructions inp) (sections outline) []
                  (emptyUsages\<lparr>OUTLINER := OUTLINER emptyUsages @ [outlineUsage]\<rparr>) of
             (Inl e, us2) \<Rightarrow> Some (Inl e)
           | (Inr plans, us2) \<Rightarrow>
               (case fanOut ag (customInstructions inp) schedule plans us2 of
                  (None, us3) \<Rightarrow> None
                | (Some (Inl e), us3) \<Rightarrow> Some (Inl e)
                | (Some (Inr sectionContents), us3) \<Rightarrow>
                    Some (finalReviewPhase ag inp outline plans sectionContents us3))))"

text \<open>
  \<open>writeArticle\<close>: the \<open>catch\<close> block raises the error it caught again; a completed run
  returns the markdown and the cost.
\<close>

definition writeArticle :: "Agents \<Rightarrow> nat list \<Rightarrow> ArticleInput \<Rightarrow> (error + string \<times> rat) option" where
  "writeArticle ag schedule inp =
     (case runPipeline ag schedule inp of
        None \<Rightarrow> None
      | Some (Inl e) \<Rightarrow> Some (Inl e)
      | Some (Inr d) \<Rightarrow> Some (Inr (finalMarkdown d, totalCost (costs d))))"

section \<open>Stub agents for concrete runs\<close>

text \<open>
  Deterministic stand-ins for the five agents, used to run the orchestration on concrete
  inputs. The strategist's plan lists the headings of the plans it was handed; the writer
  starts from \<open>v1\<close> and appends \<open>+\<close> to the previous content on every revision; the
  editor approves section \<open>A\<close> at once and section \<open>B\<close> at its third draft.
\<close>

definition noUsage :: AgentUsage where
  "noUsage = \<lparr>agentUsage = None, researcherUsages = None\<rparr>"

definition demoOutline :: ArticleOutline where
  "demoOutline =
     \<lparr>outlineTitle = ''T'',
      sections = [\<lparr>secHeading = ''A'', level = 1, subSections = None\<rparr>,
                  \<lparr>secHeading = ''B'', level = 2, subSections = None\<rparr>]\<rparr>"

definition demoInput :: ArticleInput where
  "demoInput = \<lparr>subject = ''S'', customInstructions = None\<rparr>"

definition demoPlan :: "string \<Rightarrow> string list \<Rightarrow> SectionPlan" where
  "demoPlan h earlier = \<lparr>planHeading = h, keyPoints = earlier, planReferences = None\<rparr>"

definition demoStrategist ::
  "ArticleOutline \<Rightarrow> OutlineSection \<Rightarrow> string option \<Rightarrow> SectionPlan list
     \<Rightarrow> error + SectionPlan \<times> AgentUsage" where
  "demoStrategist outline sec ci earlier =
     Inr (demoPlan (secHeading sec) (map planHeading earlier), noUsage)"

definition failingStrategist ::
  "ArticleOutline \<Rightarrow> OutlineSection \<Rightarrow> string option \<Rightarrow> SectionPlan list
     \<Rightarrow> error + SectionPlan \<times> AgentUsage" where
  "failingStrategist outline sec ci earlier =
     (if secHeading sec = ''B'' then Inl (AgentError ''rate limit'')
      else demoStrategist outline sec ci earlier)"

definition demoDraft :: "string \<Rightarrow> string \<Rightarrow> SectionContent" where
  "demoDraft h body = \<lparr>heading = h, content = body, references = None\<rparr>"

definition demoWriter ::
  "SectionPlan \<Rightarrow> string option \<Rightarrow> WriterFeedback option \<Rightarrow> error + WriterOutput" where
  "demoWriter plan ci fb =
     Inr \<lparr>writtenContent =
            demoDraft (planHeading plan)
              (case fb of None \<Rightarrow> ''v1'' | Some f \<Rightarrow> content (previousContent f) @ ''+''),
          responseToEditorFeedback = None,
          writerUsage = noUsage\<rparr>"

definition failingWriter ::
  "SectionPlan \<Rightarrow> string option \<Rightarrow> WriterFeedback option \<Rightarrow> error + WriterOutput" where
  "failingWriter plan ci fb =
     (if planHeading plan = ''B'' \<and> fb \<noteq> None then Inl (AgentError ''timeout'')
      else demoWriter plan ci fb)"

definition demoEditor ::
  "SectionContent \<Rightarrow> string option \<Rightarrow> EditorFeedback option
     \<Rightarrow> error + SectionFeedback \<times> AgentUsage" where
  "demoEditor c ci fb =
     Inr (\<lparr>approved = (heading c = ''A'' \<or> content c = ''v1++''), feedbackPoints = []\<rparr>,
          noUsage)"

definition strictEditor ::
  "SectionContent \<Rightarrow> string option \<Rightarrow> EditorFeedback option
     \<Rightarrow> error + SectionFeedback \<times> AgentUsage" where
  "strictEditor c ci fb = Inr (\<lparr>approved = False, feedbackPoints = [''again'']\<rparr>, noUsage)"

definition demoReview :: FinalReview where
  "demoReview =
     \<lparr>finalArticleTitle = ''T'', globalFeedback = [], proposedEdits = [],
      chiefUsage = noUsage\<rparr>"

definition demoAgents :: Agents where
  "demoAgents =
     \<lparr>outliner = (\<lambda>subj ci. Inr (demoOutline, noUsage)),
      contentStrategist = demoStrategist,
      writer = demoWriter,
      editor = demoEditor,
      editorInChief = (\<lambda>inp outline plans secs. Inr demoReview)\<rparr>"

definition demoWritten :: "string \<Rightarrow> string \<Rightarrow> WriterOutput" where
  "demoWritten h body =
     \<lparr>writtenContent = demoDraft h body, responseToEditorFeedback = None,
      writerUsage = noUsage\<rparr>"

definition demoReject :: SectionFeedback where
  "demoReject = \<lparr>approved = False, feedbackPoints = [''again'']\<rparr>"

definition strictAgents :: Agents where
  "strictAgents = demoAgents\<lparr>editor := strictEditor\<rparr>"

definition demoPlans :: "SectionPlan list" where
  "demoPlans = [demoPlan ''A'' [], demoPlan ''B'' [''A'']]"

definition fairSchedule :: "nat list" where
  "fairSchedule = [1, 0, 1, 0, 1, 0, 1, 0, 1, 0, 1, 0]"

text \<open>
  Two sections that both fail: the writer fails on section \<open>A\<close> at its first call, the
  editor fails on section \<open>B\<close> at its first review.
\<close>

definition brokenWriter ::
  "SectionPlan \<Rightarrow> string option \<Rightarrow> WriterFeedback option \<Rightarrow> error + WriterOutput" where
  "brokenWriter plan ci fb =
     (if planHeading plan = ''A'' then Inl (AgentError ''errA'') else demoWriter plan ci fb)"

definition brokenEditor ::
  "SectionContent \<Rightarrow> string option \<Rightarrow> EditorFeedback option
     \<Rightarrow> error + SectionFeedback \<times> AgentUsage" where
  "brokenEditor c ci fb =
     (if heading c = ''B'' then Inl (AgentError ''errB'') else demoEditor c ci fb)"

definition brokenAgents :: Agents where
  "brokenAgents = demoAgents\<lparr>writer := brokenWriter, editor := brokenEditor\<rparr>"

text \<open>
  The stub agents with an outliner whose outline is nested otherwise: every section at
  level 3, each with one subsection.
\<close>

definition deepOutline :: ArticleOutline where
  "deepOutline =
     renest (\<lambda>sec. 3) (\<lambda>sec. Some [\<lparr>subHeading = secHeading sec @ ''.1'', subLevel = 4\<rparr>])
       demoOutline"

definition deepAgents :: Agents where
  "deepAgents = demoAgents\<lparr>outliner := (\<lambda>subj ci. Inr (deepOutline, noUsage))\<rparr>"

section \<open>Facts about the string search\<close>

lemma indexOf_None_iff: "indexOf s pat = None \<longleftrightarrow> \<not> sublist pat s"
  by (induction s) (auto simp: sublist_Cons_right)

lemma indexOf_Some_prefix: "indexOf s pat = Some i \<Longrightarrow> prefix pat (drop i s)"
proof (induction s arbitrary: i)
  case Nil
  then show ?case by (simp split: if_splits)
next
  case (Cons c cs)
  then show ?case by (auto split: if_splits)
qed

lemma indexOf_Some_first:
  "indexOf s pat = Some i \<Longrightarrow> j < i \<Longrightarrow> \<not> prefix pat (drop j s)"
proof (induction s arbitrary: i j)
  case Nil
  then show ?case by (simp split: if_splits)
next
  case (Cons c cs)
  show ?case
  proof (cases j)
    case 0
    with Cons.prems show ?thesis by (auto split: if_splits)
  next
    case (Suc k)
    with Cons.prems Cons.IH show ?thesis by (auto split: if_splits)
  qed
qed

lemma replace_js_miss: "\<not> sublist pat s \<Longrightarrow> replace_js s pat repl = s"
  by (simp add: replace_js_def indexOf_None_iff [symmetric])

section \<open>Facts about the renderer\<close>

lemma foldl_appendSection:
  "foldl (appendSection es) md secs = md @ concat (map (sectionBlock es) secs)"
  by (induction secs arbitrary: md) (simp_all add: appendSection_def sectionBlock_def)

lemma foldl_appendFeedback:
  "foldl appendFeedback md fbs = md @ concat (map (\<lambda>fb. ''- '' @ fb @ ''\<newline>'') fbs)"
  by (induction fbs arbitrary: md) (simp_all add: appendFeedback_def)

lemma foldl_appendReference:
  "foldl appendReference md rs =
     md @ concat (map (\<lambda>r. ''- ['' @ title r @ '']('' @ url r @ '')\<newline>'') rs)"
  by (induction rs arbitrary: md) (simp_all add: appendReference_def)

lemma markdown_shape:
  "applyEditsAndGenerateMarkdown ttl secs es gf =
     ''# '' @ ttl @ ''\<newline>\<newline>'' @ concat (map (sectionBlock es) secs)
       @ notesBlock gf @ referencesBlock secs"
  by (simp add: applyEditsAndGenerateMarkdown_def Let_def foldl_appendSection
      foldl_appendFeedback foldl_appendReference notesBlock_def referencesBlock_def)

lemma editedContent_all_miss:
  "\<forall>e \<in> set es. sectionHeading e = heading sec \<longrightarrow> \<not> sublist (originalText e) (content sec)
     \<Longrightarrow> editedContent es sec = content sec"
proof -
  have "\<forall>e \<in> set es. sectionHeading e = h \<longrightarrow> \<not> sublist (originalText e) body
          \<Longrightarrow> foldl (applyEdit h) body es = body" for h body
    by (induction es) (simp_all add: applyEdit_def replace_js_miss)
  then show "\<forall>e \<in> set es. sectionHeading e = heading sec \<longrightarrow> \<not> sublist (originalText e) (content sec)
     \<Longrightarrow> editedContent es sec = content sec"
    by (simp add: editedContent_def)
qed

lemma editedContent_skip_miss:
  assumes "\<not> sublist (originalText e) (editedContent es1 sec)"
  shows "editedContent (es1 @ e # es2) sec = editedContent (es1 @ es2) sec"
  using assms by (simp add: editedContent_def applyEdit_def replace_js_miss)

lemma getSubstitution_no_dollar:
  "CHR ''$'' \<notin> set repl \<Longrightarrow> getSubstitution m s pos repl = repl"
  by (induction m s pos repl rule: getSubstitution.induct) auto

lemma replace_js_literal:
  assumes "indexOf s pat = Some i" and "CHR ''$'' \<notin> set repl"
  shows "replace_js s pat repl = take i s @ repl @ drop (i + length pat) s"
  using assms by (simp add: replace_js_def getSubstitution_no_dollar)

section \<open>Facts about the cost accounting\<close>

lemma foldl_plus_sum:
  "foldl (\<lambda>tot x. tot + f x) (a::rat) xs = a + sum_list (map f xs)"
  by (induction xs arbitrary: a) (simp_all add: add.assoc)

lemma calculateModelCost_tokenCost: "calculateModelCost u m = tokenCost m u"
  by (simp add: calculateModelCost_def tokenCost_def Let_def add_divide_distrib)

lemma calculateResearcherCost_sum:
  "calculateResearcherCost ru =
     sum_list (map (tokenCost gpt_4o_mini) (case ru of None \<Rightarrow> [] | Some us \<Rightarrow> us))"
  by (simp add: calculateResearcherCost_def foldl_plus_sum calculateModelCost_tokenCost
      split: option.splits)

lemma addRecord_other: "r \<noteq> role \<Longrightarrow> addRecord role tbl au r = tbl r"
  by (simp add: addRecord_def Let_def split: option.splits)

lemma addRecord_self:
  "selfCost (addRecord role tbl au role) =
     selfCost (tbl role) + sum_list (map (tokenCost (modelOfRole role)) (selfUsages [au]))"
  by (simp add: addRecord_def Let_def selfUsages_def calculateModelCost_tokenCost
      split: option.splits)

lemma addRecord_research:
  "researcherCost (addRecord role tbl au role) =
     researcherCost (tbl role) + sum_list (map (tokenCost gpt_4o_mini) (nestedUsages [au]))"
  by (simp add: addRecord_def Let_def nestedUsages_def calculateResearcherCost_sum
      split: option.splits)

lemma selfUsages_Cons: "selfUsages (r # rs) = selfUsages [r] @ selfUsages rs"
  by (simp add: selfUsages_def)

lemma nestedUsages_Cons: "nestedUsages (r # rs) = nestedUsages [r] @ nestedUsages rs"
  by (simp add: nestedUsages_def)

lemma addRole_other: "r \<noteq> fst entry \<Longrightarrow> addRole tbl entry r = tbl r"
proof -
  have "r \<noteq> role \<Longrightarrow> foldl (addRecord role) tbl rs r = tbl r" for role rs
    by (induction rs arbitrary: tbl) (simp_all add: addRecord_other)
  then show "r \<noteq> fst entry \<Longrightarrow> addRole tbl entry r = tbl r"
    by (simp add: addRole_def)
qed

lemma addRole_self:
  "selfCost (addRole tbl (role, rs) role) =
     selfCost (tbl role) + sum_list (map (tokenCost (modelOfRole role)) (selfUsages rs))"
proof -
  have "selfCost (foldl (addRecord role) tbl rs role) =
     selfCost (tbl role) + sum_list (map (tokenCost (modelOfRole role)) (selfUsages rs))"
  proof (induction rs arbitrary: tbl)
    case Nil
    show ?case by (simp add: selfUsages_def)
  next
    case (Cons r rs)
    show ?case
      by (simp add: Cons.IH addRecord_self selfUsages_Cons [of r rs] add.assoc)
  qed
  then show ?thesis by (simp add: addRole_def)
qed

lemma addRole_research:
  "researcherCost (addRole tbl (role, rs) role) =
     researcherCost (tbl role) + sum_list (map (tokenCost gpt_4o_mini) (nestedUsages rs))"
proof -
  have "researcherCost (foldl (addRecord role) tbl rs role) =
     researcherCost (tbl role) + sum_list (map (tokenCost gpt_4o_mini) (nestedUsages rs))"
  proof (induction rs arbitrary: tbl)
    case Nil
    show ?case by (simp add: nestedUsages_def)
  next
    case (Cons r rs)
    show ?case
      by (simp add: Cons.IH addRecord_research nestedUsages_Cons [of r rs] add.assoc)
  qed
  then show ?thesis by (simp add: addRole_def)
qed

section \<open>Facts about the revision loop\<close>

lemma sectionLoop_counts:
  "sectionLoop ag ci p st us = (r, us') \<Longrightarrow>
     \<exists>w e. length (WRITER us') = length (WRITER us) + w
          \<and> length (EDITOR us') = length (EDITOR us) + e
          \<and> (case r of
               Inr st' \<Rightarrow> w = e \<and> iterations st' = iterations st + w
                  \<and> (0 < w \<longrightarrow> iterations st' \<le> MAX_ITERATIONS)
                  \<and> (\<not> isApproved st \<and> iterations st < MAX_ITERATIONS \<longrightarrow> 0 < w)
             | Inl err \<Rightarrow> (w = e \<or> w = e + 1) \<and> iterations st + e < MAX_ITERATIONS)"
proof (induction ag ci p st us arbitrary: r us' rule: sectionLoop.induct)
  case (1 ag ci p st us)
  show ?case
  proof (cases "\<not> isApproved st \<and> iterations st < MAX_ITERATIONS")
    case False
    with "1.prems" have "r = Inr st" "us' = us"
      by (auto simp: sectionLoop.simps [of ag ci p st us])
    with False show ?thesis by - (rule exI [of _ 0], rule exI [of _ 0], simp)
  next
    case enter: True
    let ?st1 = "st\<lparr>iterations := iterations st + 1\<rparr>"
    show ?thesis
    proof (cases "writer ag p ci (currentFeedback ?st1)")
      case (Inl err)
      with enter "1.prems" have "r = Inl err" "us' = us"
        by (auto simp: sectionLoop.simps [of ag ci p st us] Let_def)
      with enter show ?thesis by - (rule exI [of _ 0], rule exI [of _ 0], simp)
    next
      case (Inr wr)
      let ?us1 = "us\<lparr>WRITER := WRITER us @ [writerUsage wr]\<rparr>"
      let ?st2 = "?st1\<lparr>currentContent := Some (writtenContent wr)\<rparr>"
      show ?thesis
      proof (cases "editor ag (writtenContent wr) ci (editorFeedbackOf (currentFeedback ?st2) wr)")
        case edfail: (Inl err)
        with enter Inr "1.prems" have "r = Inl err" "us' = ?us1"
          by (auto simp: sectionLoop.simps [of ag ci p st us] Let_def)
        with enter show ?thesis
          by - (rule exI [of _ 1], rule exI [of _ 0], simp)
      next
        case edok: (Inr res)
        obtain fb u where res: "res = (fb, u)" by (cases res)
        let ?st4 = "afterReview ?st2 fb"
        let ?us2 = "?us1\<lparr>EDITOR := EDITOR ?us1 @ [u]\<rparr>"
        from enter Inr edok res "1.prems"
        have rec: "sectionLoop ag ci p ?st4 ?us2 = (r, us')"
          by (auto simp: sectionLoop.simps [of ag ci p st us] Let_def)
        have it4: "iterations ?st4 = iterations st + 1"
          by (simp add: afterReview_def Let_def split: option.splits)
        note ih = "1.IH" [OF enter refl Inr refl refl edok res [symmetric] rec]
        from ih obtain w e where we: "length (WRITER us') = length (WRITER ?us2) + w"
          "length (EDITOR us') = length (EDITOR ?us2) + e"
          "case r of
               Inr st' \<Rightarrow> w = e \<and> iterations st' = iterations ?st4 + w
                  \<and> (0 < w \<longrightarrow> iterations st' \<le> MAX_ITERATIONS)
                  \<and> (\<not> isApproved ?st4 \<and> iterations ?st4 < MAX_ITERATIONS \<longrightarrow> 0 < w)
             | Inl err \<Rightarrow> (w = e \<or> w = e + 1) \<and> iterations ?st4 + e < MAX_ITERATIONS"
          by (elim exE conjE) (rule that)
        show ?thesis
        proof (rule exI [of _ "w + 1"], rule exI [of _ "e + 1"], intro conjI)
          show "length (WRITER us') = length (WRITER us) + (w + 1)" using we(1) by simp
          show "length (EDITOR us') = length (EDITOR us) + (e + 1)" using we(2) by simp
          show "case r of
               Inr st' \<Rightarrow> w + 1 = e + 1 \<and> iterations st' = iterations st + (w + 1)
                  \<and> (0 < w + 1 \<longrightarrow> iterations st' \<le> MAX_ITERATIONS)
                  \<and> (\<not> isApproved st \<and> iterations st < MAX_ITERATIONS \<longrightarrow> 0 < w + 1)
             | Inl err \<Rightarrow> (w + 1 = e + 1 \<or> w + 1 = e + 1 + 1)
                  \<and> iterations st + (e + 1) < MAX_ITERATIONS"
            using we(3) it4 enter by (cases r) (auto split: sum.splits)
        qed
      qed
    qed
  qed
qed

section \<open>Facts about the ledger\<close>

lemma appendUsages_empty [simp]:
  "appendUsages us emptyUsages = us" "appendUsages emptyUsages us = us"
  by (simp_all add: appendUsages_def emptyUsages_def)

lemma emptyUsages_fields:
  "OUTLINER emptyUsages = []" "CONTENT_STRATEGIST emptyUsages = []" "WRITER emptyUsages = []"
  "EDITOR emptyUsages = []" "EDITOR_IN_CHIEF emptyUsages = []"
  by (simp_all add: emptyUsages_def)

lemma appendUsages_assoc:
  "appendUsages (appendUsages a b) c = appendUsages a (appendUsages b c)"
  by (simp add: appendUsages_def)

lemma appendUsages_fields [simp]:
  "OUTLINER (appendUsages a b) = OUTLINER a @ OUTLINER b"
  "CONTENT_STRATEGIST (appendUsages a b) = CONTENT_STRATEGIST a @ CONTENT_STRATEGIST b"
  "WRITER (appendUsages a b) = WRITER a @ WRITER b"
  "EDITOR (appendUsages a b) = EDITOR a @ EDITOR b"
  "EDITOR_IN_CHIEF (appendUsages a b) = EDITOR_IN_CHIEF a @ EDITOR_IN_CHIEF b"
  by (simp_all add: appendUsages_def)

section \<open>Facts about one task\<close>

lemma resume_settled: "\<not> pending t \<Longrightarrow> resume ag ci t us = (t, us)"
  by (auto simp: pending_def resume_def split: TaskStatus.splits)

lemma resume_append:
  "resume ag ci t us =
     (fst (resume ag ci t emptyUsages), appendUsages us (snd (resume ag ci t emptyUsages)))"
  by (auto simp: resume_def appendUsages_def emptyUsages_def
      split: TaskStatus.splits sum.splits prod.splits)

lemma resume_pushes:
  "OUTLINER (snd (resume ag ci t emptyUsages)) = []"
  "CONTENT_STRATEGIST (snd (resume ag ci t emptyUsages)) = []"
  "EDITOR_IN_CHIEF (snd (resume ag ci t emptyUsages)) = []"
  by (auto simp: resume_def emptyUsages_def split: TaskStatus.splits sum.splits prod.splits)

lemma movesLeft_resume:
  "pending t \<Longrightarrow> movesLeft (fst (resume ag ci t us)) < movesLeft t"
  by (auto simp: pending_def movesLeft_def resume_def enterLoop_def afterReview_def Let_def
      MAX_ITERATIONS_def split: TaskStatus.splits sum.splits option.splits if_splits)

lemma movesLeft_0: "movesLeft t = 0 \<longleftrightarrow> \<not> pending t"
  by (auto simp: pending_def movesLeft_def split: TaskStatus.splits)

lemma runTask_settled: "\<not> pending t \<Longrightarrow> runTask ag ci t us = (t, us)"
  by (simp add: runTask.simps [of ag ci t us])

lemma runTask_step:
  "runTask ag ci t us =
     runTask ag ci (fst (resume ag ci t us)) (snd (resume ag ci t us))"
proof (cases "pending t")
  case True
  then show ?thesis
    by (simp add: runTask.simps [of ag ci t us] split: prod.splits)
next
  case False
  then show ?thesis by (simp add: resume_settled)
qed

lemma runTask_not_pending: "\<not> pending (fst (runTask ag ci t us))"
proof (induction ag ci t us rule: runTask.induct)
  case (1 ag ci t us)
  show ?case
  proof (cases "pending t")
    case True
    obtain t' us' where r: "resume ag ci t us = (t', us')" by force
    from "1.IH" [OF True r [symmetric]] True r show ?thesis
      by (simp add: runTask.simps [of ag ci t us])
  next
    case False
    then show ?thesis by (simp add: runTask_settled)
  qed
qed

lemma runTask_append:
  "runTask ag ci t us =
     (fst (runTask ag ci t emptyUsages), appendUsages us (snd (runTask ag ci t emptyUsages)))"
proof (induction "movesLeft t" arbitrary: t us rule: less_induct)
  case less
  show ?case
  proof (cases "pending t")
    case False
    then show ?thesis by (simp add: runTask_settled)
  next
    case True
    let ?t1 = "fst (resume ag ci t emptyUsages)"
    let ?d1 = "snd (resume ag ci t emptyUsages)"
    have smaller: "movesLeft ?t1 < movesLeft t" by (rule movesLeft_resume [OF True])
    have "runTask ag ci t us = runTask ag ci ?t1 (appendUsages us ?d1)"
      by (subst runTask_step, subst (1 2) resume_append) simp
    also have "\<dots> = (fst (runTask ag ci ?t1 emptyUsages),
        appendUsages (appendUsages us ?d1) (snd (runTask ag ci ?t1 emptyUsages)))"
      by (rule less [OF smaller])
    finally have lhs: "runTask ag ci t us = (fst (runTask ag ci ?t1 emptyUsages),
        appendUsages us (appendUsages ?d1 (snd (runTask ag ci ?t1 emptyUsages))))"
      by (simp add: appendUsages_assoc)
    have "runTask ag ci t emptyUsages = runTask ag ci ?t1 ?d1"
      by (subst runTask_step) simp
    also have "\<dots> = (fst (runTask ag ci ?t1 emptyUsages),
        appendUsages ?d1 (snd (runTask ag ci ?t1 emptyUsages)))"
      by (rule less [OF smaller])
    finally have rhs: "runTask ag ci t emptyUsages = (fst (runTask ag ci ?t1 emptyUsages),
        appendUsages ?d1 (snd (runTask ag ci ?t1 emptyUsages)))" .
    show ?thesis by (simp add: lhs rhs)
  qed
qed

lemma outcome_resume: "outcome ag ci (fst (resume ag ci t us)) = outcome ag ci t"
proof -
  have "fst (runTask ag ci t emptyUsages)
      = fst (runTask ag ci (fst (resume ag ci t emptyUsages)) (snd (resume ag ci t emptyUsages)))"
    by (subst runTask_step) simp
  also have "\<dots> = fst (runTask ag ci (fst (resume ag ci t emptyUsages)) emptyUsages)"
    by (subst runTask_append) simp
  finally show ?thesis
    by (subst resume_append) (simp add: outcome_def)
qed

lemma outcome_settled: "\<not> pending t \<Longrightarrow> outcome ag ci t = status t"
  by (simp add: outcome_def runTask_settled)

lemma outcome_cases:
  "(\<exists>c. outcome ag ci t = Fulfilled c) \<or> (\<exists>e. outcome ag ci t = Rejected e)"
  using runTask_not_pending [of ag ci t emptyUsages]
  by (auto simp: outcome_def pending_def split: TaskStatus.splits)

section \<open>The revision loop and the task agree\<close>

lemma enterLoop_exit:
  "\<not> (\<not> isApproved st \<and> iterations st < MAX_ITERATIONS) \<Longrightarrow>
     \<not> pending (enterLoop p st) \<and> status (enterLoop p st) = settle p (Inr st)"
  by (auto simp: enterLoop_def pending_def settle_def split: sum.splits)

lemma runTask_resume_eq:
  "resume ag ci t us = (t1, us1) \<Longrightarrow> runTask ag ci t us = runTask ag ci t1 us1"
  by (subst runTask_step) simp

lemma runTask_enterLoop:
  "runTask ag ci (enterLoop p st) us = (t', us') \<Longrightarrow>
     status t' = settle p (fst (sectionLoop ag ci p st us))
       \<and> us' = snd (sectionLoop ag ci p st us)"
proof (induction ag ci p st us arbitrary: t' us' rule: sectionLoop.induct)
  case (1 ag ci p st us)
  show ?case
  proof (cases "\<not> isApproved st \<and> iterations st < MAX_ITERATIONS")
    case False
    have seq: "sectionLoop ag ci p st us = (Inr st, us)"
      using False by (auto simp: sectionLoop.simps [of ag ci p st us])
    from enterLoop_exit [OF False, of p] "1.prems"
    have "t' = enterLoop p st" "us' = us" by (simp_all add: runTask_settled)
    with enterLoop_exit [OF False, of p] show ?thesis by (simp add: seq)
  next
    case enter: True
    define st1 where "st1 = st\<lparr>iterations := iterations st + 1\<rparr>"
    define t0 where "t0 = \<lparr>taskPlan = p, locals = st1, status = AwaitWriter\<rparr>"
    have t0: "enterLoop p st = t0" using enter by (simp add: enterLoop_def t0_def st1_def)
    have run0: "runTask ag ci t0 us = (t', us')" using "1.prems" by (simp add: t0)
    show ?thesis
    proof (cases "writer ag p ci (currentFeedback st1)")
      case (Inl err)
      define tR where "tR = t0\<lparr>status := Rejected err\<rparr>"
      have r: "resume ag ci t0 us = (tR, us)"
        using Inl by (simp add: resume_def t0_def tR_def)
      have "\<not> pending tR" by (simp add: pending_def tR_def)
      then have "runTask ag ci tR us = (tR, us)" by (rule runTask_settled)
      with runTask_resume_eq [OF r] run0 have fin: "t' = tR" "us' = us" by simp_all
      have seq: "sectionLoop ag ci p st us = (Inl err, us)"
        using enter Inl
        by (subst sectionLoop.simps) (simp add: Let_def st1_def)
      show ?thesis by (simp add: fin seq settle_def tR_def)
    next
      case (Inr wr)
      define us1 where "us1 = us\<lparr>WRITER := WRITER us @ [writerUsage wr]\<rparr>"
      define st2 where "st2 = st1\<lparr>currentContent := Some (writtenContent wr)\<rparr>"
      define t1 where "t1 = \<lparr>taskPlan = p, locals = st2, status = AwaitEditor wr\<rparr>"
      have r0: "resume ag ci t0 us = (t1, us1)"
        using Inr by (simp add: resume_def t0_def t1_def us1_def st2_def)
      have run1: "runTask ag ci t1 us1 = (t', us')"
        using runTask_resume_eq [OF r0] run0 by simp
      show ?thesis
      proof (cases "editor ag (writtenContent wr) ci (editorFeedbackOf (currentFeedback st2) wr)")
        case edfail: (Inl err)
        define tR where "tR = t1\<lparr>status := Rejected err\<rparr>"
        have r: "resume ag ci t1 us1 = (tR, us1)"
          using edfail by (simp add: resume_def t1_def tR_def)
        have "\<not> pending tR" by (simp add: pending_def tR_def)
        then have "runTask ag ci tR us1 = (tR, us1)" by (rule runTask_settled)
        with runTask_resume_eq [OF r] run1 have fin: "t' = tR" "us' = us1" by simp_all
        have seq: "sectionLoop ag ci p st us = (Inl err, us1)"
          using enter Inr edfail
          by (subst sectionLoop.simps) (simp add: Let_def st1_def st2_def us1_def)
        show ?thesis by (simp add: fin seq settle_def tR_def)
      next
        case edok: (Inr res)
        obtain fb u where res: "res = (fb, u)" by (cases res)
        define st4 where "st4 = afterReview st2 fb"
        define us2 where "us2 = us1\<lparr>EDITOR := EDITOR us1 @ [u]\<rparr>"
        have r1: "resume ag ci t1 us1 = (enterLoop p st4, us2)"
          using edok res by (simp add: resume_def t1_def st4_def us2_def)
        have run2: "runTask ag ci (enterLoop p st4) us2 = (t', us')"
          using runTask_resume_eq [OF r1] run1 by simp
        have seq: "sectionLoop ag ci p st us = sectionLoop ag ci p st4 us2"
          using enter Inr edok res
          by (subst sectionLoop.simps) (simp add: Let_def st1_def st2_def us1_def st4_def us2_def)
        have "status t' = settle p (fst (sectionLoop ag ci p st4 us2))
            \<and> us' = snd (sectionLoop ag ci p st4 us2)"
          using enter Inr edok res run2 unfolding st1_def st2_def us1_def st4_def us2_def
          by (intro "1.IH" [OF _ refl _ refl refl _ refl]) simp_all
        then show ?thesis by (simp add: seq)
      qed
    qed
  qed
qed

lemma settle_processSection:
  "settle p (fst (sectionLoop ag ci p initialState us)) =
     (case fst (processSection ag ci p us) of Inl e \<Rightarrow> Rejected e | Inr c \<Rightarrow> Fulfilled c)"
  by (simp add: settle_def processSection_def split: sum.splits prod.splits)

lemma outcome_startTask:
  "outcome ag ci (startTask p) =
     (case fst (processSection ag ci p us) of Inl e \<Rightarrow> Rejected e | Inr c \<Rightarrow> Fulfilled c)"
proof -
  obtain t1 u1 where a: "runTask ag ci (startTask p) us = (t1, u1)" by force
  from runTask_append [of ag ci "startTask p" us] a
  have "t1 = fst (runTask ag ci (startTask p) emptyUsages)" by simp
  moreover from runTask_enterLoop [of ag ci p initialState us t1 u1] a
  have "status t1 = settle p (fst (sectionLoop ag ci p initialState us))"
    by (simp add: startTask_def)
  ultimately show ?thesis
    by (simp add: outcome_def settle_processSection)
qed

lemma processSection_ledger:
  "snd (processSection ag ci p us) =
     appendUsages us (snd (runTask ag ci (startTask p) emptyUsages))"
proof -
  obtain t1 u1 where a: "runTask ag ci (startTask p) us = (t1, u1)" by force
  from runTask_append [of ag ci "startTask p" us] a
  have "u1 = appendUsages us (snd (runTask ag ci (startTask p) emptyUsages))" by simp
  moreover from runTask_enterLoop [of ag ci p initialState us t1 u1] a
  have "u1 = snd (sectionLoop ag ci p initialState us)"
    by (simp add: startTask_def)
  moreover have "snd (processSection ag ci p us) = snd (sectionLoop ag ci p initialState us)"
    by (simp add: processSection_def split: sum.splits prod.splits)
  ultimately show ?thesis by simp
qed

section \<open>Facts about \<open>Promise.all\<close>\<close>

lemma fulfilled_not_pending: "fulfilled t \<Longrightarrow> \<not> pending t"
  by (auto simp: fulfilled_def pending_def split: TaskStatus.splits)

lemma all_fulfilled_outcomes:
  "list_all fulfilled tasks \<Longrightarrow>
     map (outcome ag ci) tasks = map Fulfilled (List.map_filter valueOf tasks)"
proof (induction tasks)
  case Nil
  show ?case by (simp add: List.map_filter_simps)
next
  case (Cons t tasks)
  then have "fulfilled t" by simp
  then obtain c where c: "status t = Fulfilled c"
    by (auto simp: fulfilled_def split: TaskStatus.splits)
  with \<open>fulfilled t\<close> have "outcome ag ci t = Fulfilled c"
    by (simp add: outcome_settled fulfilled_not_pending)
  with Cons c show ?case
    by (simp add: List.map_filter_simps valueOf_def)
qed

lemma map_update_same: "i < length xs \<Longrightarrow> f y = f (xs ! i) \<Longrightarrow> map f (xs[i := y]) = map f xs"
  by (simp add: map_update list_update_same_conv)

lemma promiseAll_outcomes:
  "case fst (promiseAll ag ci sched tasks us) of
     None \<Rightarrow> True
   | Some (Inl e) \<Rightarrow> Rejected e \<in> set (map (outcome ag ci) tasks)
   | Some (Inr cs) \<Rightarrow> map (outcome ag ci) tasks = map Fulfilled cs"
proof (induction sched arbitrary: tasks us)
  case Nil
  show ?case by (simp add: all_fulfilled_outcomes)
next
  case (Cons i sched)
  show ?case
  proof (cases "list_all fulfilled tasks")
    case True
    then show ?thesis by (simp add: all_fulfilled_outcomes)
  next
    case notyet: False
    show ?thesis
    proof (cases "i < length tasks")
      case False
      with notyet Cons.IH [of tasks us] show ?thesis by simp
    next
      case inrange: True
      obtain t us' where r: "resume ag ci (tasks ! i) us = (t, us')" by force
      have same: "outcome ag ci t = outcome ag ci (tasks ! i)"
        using outcome_resume [of ag ci "tasks ! i" us] r by simp
      show ?thesis
      proof (cases "\<exists>e. status t = Rejected e")
        case True
        then obtain e where e: "status t = Rejected e" by blast
        then have "outcome ag ci t = Rejected e"
          by (simp add: outcome_settled pending_def)
        with same inrange have "Rejected e \<in> set (map (outcome ag ci) tasks)"
          by (metis length_map nth_map nth_mem)
        with notyet inrange r e show ?thesis by simp
      next
        case False
        with notyet inrange r
        have step: "promiseAll ag ci (i # sched) tasks us
            = promiseAll ag ci sched (tasks[i := t]) us'"
          by (cases "status t") simp_all
        from Cons.IH [of "tasks[i := t]" us'] show ?thesis
          unfolding step map_update_same [OF inrange same] .
      qed
    qed
  qed
qed

lemma promiseAll_settles:
  assumes "\<forall>t \<in> set tasks. \<forall>e. status t \<noteq> Rejected e"
    and "\<forall>i < length tasks. movesLeft (tasks ! i) \<le> count_list sched i"
  shows "fst (promiseAll ag ci sched tasks us) \<noteq> None"
  using assms
proof (induction sched arbitrary: tasks us)
  case Nil
  have "list_all fulfilled tasks"
    unfolding list_all_length
  proof (intro allI impI)
    fix i assume i: "i < length tasks"
    with Nil.prems have "movesLeft (tasks ! i) = 0" "\<forall>e. status (tasks ! i) \<noteq> Rejected e"
      by simp_all
    then show "fulfilled (tasks ! i)"
      by (auto simp: movesLeft_def fulfilled_def split: TaskStatus.splits)
  qed
  then show ?case by simp
next
  case (Cons i sched)
  show ?case
  proof (cases "list_all fulfilled tasks")
    case True
    then show ?thesis by simp
  next
    case notyet: False
    show ?thesis
    proof (cases "i < length tasks")
      case False
      then have "\<forall>j < length tasks. movesLeft (tasks ! j) \<le> count_list sched j"
        using Cons.prems(2) by auto
      from Cons.IH [OF Cons.prems(1) this, of us] notyet False show ?thesis by simp
    next
      case inrange: True
      obtain t us' where r: "resume ag ci (tasks ! i) us = (t, us')" by force
      show ?thesis
      proof (cases "\<exists>e. status t = Rejected e")
        case True
        with notyet inrange r show ?thesis by auto
      next
        case False
        with notyet inrange r
        have step: "promiseAll ag ci (i # sched) tasks us
            = promiseAll ag ci sched (tasks[i := t]) us'"
          by (cases "status t") simp_all
        have noRej: "\<forall>x \<in> set (tasks[i := t]). \<forall>e. status x \<noteq> Rejected e"
          using False Cons.prems(1) by (auto dest!: set_update_subset_insert [THEN subsetD])
        have bound: "\<forall>j < length (tasks[i := t]). movesLeft (tasks[i := t] ! j) \<le> count_list sched j"
        proof (intro allI impI)
          fix j assume j: "j < length (tasks[i := t])"
          show "movesLeft (tasks[i := t] ! j) \<le> count_list sched j"
          proof (cases "j = i")
            case False
            with j Cons.prems(2) show ?thesis by auto
          next
            case True
            have "movesLeft t \<le> movesLeft (tasks ! i) - 1"
            proof (cases "pending (tasks ! i)")
              case True
              from movesLeft_resume [OF this, of ag ci us] r show ?thesis by simp
            next
              case False
              with r have "t = tasks ! i" by (simp add: resume_settled)
              with False show ?thesis by (simp add: movesLeft_0 [symmetric])
            qed
            moreover from inrange Cons.prems(2)
            have "movesLeft (tasks ! i) \<le> count_list sched i + 1" by auto
            ultimately show ?thesis using True inrange by simp
          qed
        qed
        from Cons.IH [OF noRej bound, of us'] show ?thesis unfolding step .
      qed
    qed
  qed
qed

lemma sum_list_map_update:
  "i < length xs \<Longrightarrow>
     sum_list (map f (xs[i := y])) + f (xs ! i) = sum_list (map f xs) + (f y :: nat)"
proof (induction xs arbitrary: i)
  case Nil
  then show ?case by simp
next
  case (Cons x xs)
  then show ?case by (cases i) auto
qed

lemma pushesLeft_settled:
  "\<not> pending t \<Longrightarrow> writerPushesLeft ag ci t = 0 \<and> editorPushesLeft ag ci t = 0"
  by (simp add: writerPushesLeft_def editorPushesLeft_def runTask_settled emptyUsages_def)

lemma pushesLeft_resume:
  assumes "resume ag ci t us = (t1, us1)"
  shows "length (WRITER us1) + writerPushesLeft ag ci t1
           = length (WRITER us) + writerPushesLeft ag ci t"
    and "length (EDITOR us1) + editorPushesLeft ag ci t1
           = length (EDITOR us) + editorPushesLeft ag ci t"
proof -
  let ?d = "snd (resume ag ci t emptyUsages)"
  from assms resume_append [of ag ci t us]
  have t1: "t1 = fst (resume ag ci t emptyUsages)" and us1: "us1 = appendUsages us ?d"
    by simp_all
  have "runTask ag ci t emptyUsages = runTask ag ci t1 ?d"
    by (subst runTask_step) (simp add: t1)
  also have "\<dots> = (fst (runTask ag ci t1 emptyUsages),
      appendUsages ?d (snd (runTask ag ci t1 emptyUsages)))"
    by (rule runTask_append)
  finally have run: "snd (runTask ag ci t emptyUsages)
      = appendUsages ?d (snd (runTask ag ci t1 emptyUsages))" by simp
  show "length (WRITER us1) + writerPushesLeft ag ci t1
           = length (WRITER us) + writerPushesLeft ag ci t"
    by (simp add: writerPushesLeft_def run us1)
  show "length (EDITOR us1) + editorPushesLeft ag ci t1
           = length (EDITOR us) + editorPushesLeft ag ci t"
    by (simp add: editorPushesLeft_def run us1)
qed

lemma resume_frame:
  assumes "resume ag ci t us = (t1, us1)"
  shows "OUTLINER us1 = OUTLINER us \<and> CONTENT_STRATEGIST us1 = CONTENT_STRATEGIST us
           \<and> EDITOR_IN_CHIEF us1 = EDITOR_IN_CHIEF us"
  using assms resume_append [of ag ci t us] by (auto simp: resume_pushes)

lemma promiseAll_ledger:
  assumes "promiseAll ag ci sched tasks us = (Some (Inr cs), us')"
  shows "length (WRITER us') = length (WRITER us) + sum_list (map (writerPushesLeft ag ci) tasks)
       \<and> length (EDITOR us') = length (EDITOR us) + sum_list (map (editorPushesLeft ag ci) tasks)
       \<and> OUTLINER us' = OUTLINER us \<and> CONTENT_STRATEGIST us' = CONTENT_STRATEGIST us
       \<and> EDITOR_IN_CHIEF us' = EDITOR_IN_CHIEF us"
  using assms
proof (induction sched arbitrary: tasks us)
  case Nil
  then have all: "list_all fulfilled tasks" "us' = us" by (auto split: if_splits)
  then have "\<forall>t \<in> set tasks. writerPushesLeft ag ci t = 0 \<and> editorPushesLeft ag ci t = 0"
    by (auto simp: list_all_iff dest!: fulfilled_not_pending pushesLeft_settled)
  then have "sum_list (map (writerPushesLeft ag ci) tasks) = 0"
    "sum_list (map (editorPushesLeft ag ci) tasks) = 0" by simp_all
  with all show ?case by simp
next
  case (Cons i sched)
  show ?case
  proof (cases "list_all fulfilled tasks")
    case True
    with Cons.prems have "us' = us" by simp
    moreover from True
    have "\<forall>t \<in> set tasks. writerPushesLeft ag ci t = 0 \<and> editorPushesLeft ag ci t = 0"
      by (auto simp: list_all_iff dest!: fulfilled_not_pending pushesLeft_settled)
    then have "sum_list (map (writerPushesLeft ag ci) tasks) = 0"
      "sum_list (map (editorPushesLeft ag ci) tasks) = 0" by simp_all
    ultimately show ?thesis by simp
  next
    case notyet: False
    show ?thesis
    proof (cases "i < length tasks")
      case False
      with notyet Cons.prems have "promiseAll ag ci sched tasks us = (Some (Inr cs), us')"
        by simp
      from Cons.IH [OF this] show ?thesis .
    next
      case inrange: True
      obtain t us1 where r: "resume ag ci (tasks ! i) us = (t, us1)" by force
      have notRej: "\<not> (\<exists>e. status t = Rejected e)"
        using Cons.prems notyet inrange r by auto
      with notyet inrange r Cons.prems
      have step: "promiseAll ag ci sched (tasks[i := t]) us1 = (Some (Inr cs), us')"
        by (cases "status t") simp_all
      note ih = Cons.IH [OF step]
      note w = pushesLeft_resume [OF r]
      note sw = sum_list_map_update [OF inrange, of "writerPushesLeft ag ci" t]
      note se = sum_list_map_update [OF inrange, of "editorPushesLeft ag ci" t]
      from ih w sw se resume_frame [OF r] show ?thesis by simp
    qed
  qed
qed

section \<open>Facts about the strategy loop\<close>

lemma strategyLoop_calls:
  "strategyLoop ag outline ci secs acc us = (r, us') \<Longrightarrow>
     (case r of
        Inr plans \<Rightarrow>
          (\<exists>new. plans = acc @ new \<and> length new = length secs
             \<and> (\<forall>k < length secs. \<exists>u.
                   contentStrategist ag outline (secs ! k) ci (acc @ take k new)
                     = Inr (new ! k, u)))
      | Inl e \<Rightarrow>
          (\<exists>new. length new < length secs
             \<and> (\<forall>k < length new. \<exists>u.
                   contentStrategist ag outline (secs ! k) ci (acc @ take k new)
                     = Inr (new ! k, u))
             \<and> contentStrategist ag outline (secs ! length new) ci (acc @ new) = Inl e))"
proof (induction secs arbitrary: acc us)
  case Nil
  then show ?case by auto
next
  case (Cons sec rest)
  show ?case
  proof (cases "contentStrategist ag outline sec ci acc")
    case (Inl e)
    with Cons.prems have "r = Inl e" by simp
    with Inl show ?thesis by (simp add: exI [of _ "[]"])
  next
    case (Inr res)
    obtain plan u where res: "res = (plan, u)" by (cases res)
    let ?us1 = "us\<lparr>CONTENT_STRATEGIST := CONTENT_STRATEGIST us @ [u]\<rparr>"
    from Cons.prems Inr res
    have rec: "strategyLoop ag outline ci rest (acc @ [plan]) ?us1 = (r, us')" by simp
    note ih = Cons.IH [OF rec]
    show ?thesis
    proof (cases r)
      case ok: (Inr plans)
      with ih obtain new where new: "plans = (acc @ [plan]) @ new" "length new = length rest"
        "\<forall>k < length rest. \<exists>u. contentStrategist ag outline (rest ! k) ci
            ((acc @ [plan]) @ take k new) = Inr (new ! k, u)"
        by auto
      have "\<forall>k < length (sec # rest). \<exists>u.
          contentStrategist ag outline ((sec # rest) ! k) ci (acc @ take k (plan # new))
            = Inr ((plan # new) ! k, u)"
      proof (intro allI impI)
        fix k assume k: "k < length (sec # rest)"
        show "\<exists>u. contentStrategist ag outline ((sec # rest) ! k) ci (acc @ take k (plan # new))
            = Inr ((plan # new) ! k, u)"
        proof (cases k)
          case 0
          with Inr res show ?thesis by simp
        next
          case (Suc j)
          with k new(3) show ?thesis by simp
        qed
      qed
      with new(1,2) ok show ?thesis
        by (simp add: exI [of _ "plan # new"])
    next
      case bad: (Inl e)
      with ih obtain new where new: "length new < length rest"
        "\<forall>k < length new. \<exists>u. contentStrategist ag outline (rest ! k) ci
            ((acc @ [plan]) @ take k new) = Inr (new ! k, u)"
        "contentStrategist ag outline (rest ! length new) ci ((acc @ [plan]) @ new) = Inl e"
        by auto
      have "\<forall>k < length (plan # new). \<exists>u.
          contentStrategist ag outline ((sec # rest) ! k) ci (acc @ take k (plan # new))
            = Inr ((plan # new) ! k, u)"
      proof (intro allI impI)
        fix k assume k: "k < length (plan # new)"
        show "\<exists>u. contentStrategist ag outline ((sec # rest) ! k) ci (acc @ take k (plan # new))
            = Inr ((plan # new) ! k, u)"
        proof (cases k)
          case 0
          with Inr res show ?thesis by simp
        next
          case (Suc j)
          with k new(2) show ?thesis by simp
        qed
      qed
      with new(1,3) bad show ?thesis
        by (simp add: exI [of _ "plan # new"])
    qed
  qed
qed

lemma strategyLoop_frame:
  "strategyLoop ag outline ci secs acc us = (r, us') \<Longrightarrow>
     OUTLINER us' = OUTLINER us \<and> WRITER us' = WRITER us \<and> EDITOR us' = EDITOR us
       \<and> EDITOR_IN_CHIEF us' = EDITOR_IN_CHIEF us"
proof (induction secs arbitrary: acc us)
  case Nil
  then show ?case by auto
next
  case (Cons sec rest)
  show ?case
  proof (cases "contentStrategist ag outline sec ci acc")
    case (Inl e)
    with Cons.prems show ?thesis by simp
  next
    case (Inr res)
    obtain plan u where res: "res = (plan, u)" by (cases res)
    from Cons.prems Inr res
    have "strategyLoop ag outline ci rest (acc @ [plan])
        (us\<lparr>CONTENT_STRATEGIST := CONTENT_STRATEGIST us @ [u]\<rparr>) = (r, us')" by simp
    from Cons.IH [OF this] show ?thesis by simp
  qed
qed


section \<open>Facts about the fan-out\<close>

lemma movesLeft_startTask: "movesLeft (startTask p) = 6"
  by (simp add: startTask_def enterLoop_def initialState_def movesLeft_def MAX_ITERATIONS_def)

lemma status_startTask: "status (startTask p) = AwaitWriter"
  by (simp add: startTask_def enterLoop_def initialState_def MAX_ITERATIONS_def)

lemma processSection_fst_indep:
  "fst (processSection ag ci p us) = fst (processSection ag ci p us')"
  using outcome_startTask [of ag ci p us] outcome_startTask [of ag ci p us']
  by (auto split: sum.splits)

lemma fanOut_outcomes:
  "map (outcome ag ci) (map startTask plans) =
     map (\<lambda>p. case fst (processSection ag ci p us0) of
                 Inl e \<Rightarrow> Rejected e | Inr c \<Rightarrow> Fulfilled c) plans"
  by (simp add: outcome_startTask [of ag ci _ us0])

lemma fanOut_all_succeed:
  assumes "length cs = length plans"
    and "\<forall>i < length plans. fst (processSection ag ci (plans ! i) us0) = Inr (cs ! i)"
  shows "map (outcome ag ci) (map startTask plans) = map Fulfilled cs"
  unfolding fanOut_outcomes [of ag ci plans us0]
  using assms by (intro nth_equalityI) simp_all

lemma map_Fulfilled_inj: "map Fulfilled xs = map Fulfilled ys \<Longrightarrow> xs = ys"
  by (induction xs arbitrary: ys) auto

lemma fanOut_result:
  assumes "length cs = length plans"
    and "\<forall>i < length plans. fst (processSection ag ci (plans ! i) us0) = Inr (cs ! i)"
    and "fst (fanOut ag ci sched plans us) = Some r"
  shows "r = Inr cs"
proof -
  note out = fanOut_all_succeed [OF assms(1,2)]
  from promiseAll_outcomes [where ag = ag and ci = ci and sched = sched and tasks = "map startTask plans" and us = us] assms(3)
  show ?thesis
    unfolding out fanOut_def
    by (cases r) (auto dest: map_Fulfilled_inj)
qed

lemma fanOut_settles:
  assumes "\<forall>i < length plans. 6 \<le> count_list sched i"
  shows "fst (fanOut ag ci sched plans us) \<noteq> None"
  unfolding fanOut_def
  using assms by (intro promiseAll_settles) (auto simp: movesLeft_startTask status_startTask)

lemma fanOut_failure:
  assumes "fst (fanOut ag ci sched plans us) = Some r"
    and "i < length plans" and "fst (processSection ag ci (plans ! i) us0) = Inl e"
  shows "\<exists>j e'. j < length plans \<and> fst (processSection ag ci (plans ! j) us0) = Inl e'
           \<and> r = Inl e'"
proof (cases r)
  case (Inl e')
  from promiseAll_outcomes [where ag = ag and ci = ci and sched = sched and tasks = "map startTask plans" and us = us] assms(1) Inl
  have "Rejected e' \<in> set (map (outcome ag ci) (map startTask plans))"
    by (simp add: fanOut_def)
  then obtain j where "j < length plans"
      "outcome ag ci (startTask (plans ! j)) = Rejected e'"
    by (auto simp: in_set_conv_nth)
  with outcome_startTask [of ag ci "plans ! j" us0] Inl show ?thesis
    by (auto split: sum.splits)
next
  case (Inr cs)
  from promiseAll_outcomes [where ag = ag and ci = ci and sched = sched and tasks = "map startTask plans" and us = us] assms(1) Inr
  have "map (outcome ag ci) (map startTask plans) = map Fulfilled cs"
    by (simp add: fanOut_def)
  then have "map (outcome ag ci) (map startTask plans) ! i = map Fulfilled cs ! i"
    "length cs = length plans"
    by (simp_all, metis length_map)
  with assms(2,3) outcome_startTask [of ag ci "plans ! i" us0] show ?thesis
    by simp
qed

lemma fanOut_ledger:
  assumes "fanOut ag ci sched plans us = (Some (Inr cs), us')"
  shows "length (WRITER us') = length (WRITER us)
           + sum_list (map (\<lambda>p. length (WRITER (snd (processSection ag ci p emptyUsages)))) plans)
       \<and> length (EDITOR us') = length (EDITOR us)
           + sum_list (map (\<lambda>p. length (EDITOR (snd (processSection ag ci p emptyUsages)))) plans)
       \<and> OUTLINER us' = OUTLINER us \<and> CONTENT_STRATEGIST us' = CONTENT_STRATEGIST us
       \<and> EDITOR_IN_CHIEF us' = EDITOR_IN_CHIEF us"
proof -
  have w: "writerPushesLeft ag ci (startTask p)
      = length (WRITER (snd (processSection ag ci p emptyUsages)))" for p
    by (simp add: writerPushesLeft_def processSection_ledger [of ag ci p emptyUsages])
  have e: "editorPushesLeft ag ci (startTask p)
      = length (EDITOR (snd (processSection ag ci p emptyUsages)))" for p
    by (simp add: editorPushesLeft_def processSection_ledger [of ag ci p emptyUsages])
  from promiseAll_ledger [OF assms [unfolded fanOut_def]] show ?thesis
    by (simp add: comp_def w e)
qed

section \<open>Facts about the pipeline\<close>

lemma strategyLoop_succeeds:
  assumes "length new = length secs"
    and "\<forall>k < length secs. \<exists>u.
           contentStrategist ag outline (secs ! k) ci (acc @ take k new) = Inr (new ! k, u)"
  shows "fst (strategyLoop ag outline ci secs acc us) = Inr (acc @ new)"
  using assms
proof (induction secs arbitrary: acc us new)
  case Nil
  then show ?case by simp
next
  case (Cons sec rest)
  then obtain plan new' where new: "new = plan # new'" by (cases new) auto
  from Cons.prems(2) [rule_format, of 0] new
  obtain u where first: "contentStrategist ag outline sec ci acc = Inr (plan, u)" by auto
  have rest: "\<forall>k < length rest. \<exists>u.
      contentStrategist ag outline (rest ! k) ci ((acc @ [plan]) @ take k new') = Inr (new' ! k, u)"
  proof (intro allI impI)
    fix k assume "k < length rest"
    with Cons.prems(2) [rule_format, of "Suc k"] new
    show "\<exists>u. contentStrategist ag outline (rest ! k) ci ((acc @ [plan]) @ take k new')
        = Inr (new' ! k, u)" by simp
  qed
  from Cons.prems(1) new have "length new' = length rest" by simp
  from this rest have "fst (strategyLoop ag outline ci rest (acc @ [plan])
      (us\<lparr>CONTENT_STRATEGIST := CONTENT_STRATEGIST us @ [u]\<rparr>)) = Inr ((acc @ [plan]) @ new')"
    by (rule Cons.IH)
  with first new show ?case by simp
qed

lemma strategyLoop_fails:
  assumes "length new < length secs"
    and "\<forall>k < length new. \<exists>u.
           contentStrategist ag outline (secs ! k) ci (acc @ take k new) = Inr (new ! k, u)"
    and "contentStrategist ag outline (secs ! length new) ci (acc @ new) = Inl e"
  shows "fst (strategyLoop ag outline ci secs acc us) = Inl e"
  using assms
proof (induction secs arbitrary: acc us new)
  case Nil
  then show ?case by simp
next
  case (Cons sec rest)
  show ?case
  proof (cases new)
    case Nil
    with Cons.prems(3) show ?thesis by simp
  next
    case (Cons plan new')
    from Cons.prems(2) [rule_format, of 0] Cons
    obtain u where first: "contentStrategist ag outline sec ci acc = Inr (plan, u)" by auto
    have rest: "\<forall>k < length new'. \<exists>u.
        contentStrategist ag outline (rest ! k) ci ((acc @ [plan]) @ take k new') = Inr (new' ! k, u)"
    proof (intro allI impI)
      fix k assume "k < length new'"
      with Cons.prems(2) [rule_format, of "Suc k"] Cons
      show "\<exists>u. contentStrategist ag outline (rest ! k) ci ((acc @ [plan]) @ take k new')
          = Inr (new' ! k, u)" by simp
    qed
    from Cons.prems(1) Cons have shorter: "length new' < length rest" by simp
    from Cons.prems(3) Cons
    have last: "contentStrategist ag outline (rest ! length new') ci ((acc @ [plan]) @ new') = Inl e"
      by simp
    from shorter rest last have "fst (strategyLoop ag outline ci rest (acc @ [plan])
        (us\<lparr>CONTENT_STRATEGIST := CONTENT_STRATEGIST us @ [u]\<rparr>)) = Inl e"
      by (rule Cons.IH)
    with first show ?thesis by simp
  qed
qed

lemma runPipeline_outliner_fails:
  "outliner ag (subject inp) (customInstructions inp) = Inl e \<Longrightarrow>
     runPipeline ag sched inp = Some (Inl e)"
  by (simp add: runPipeline_def)

lemma runPipeline_strategy_fails:
  assumes "outliner ag (subject inp) (customInstructions inp) = Inr (outline, uo)"
    and "fst (strategyLoop ag outline (customInstructions inp) (sections outline) []
           (emptyUsages\<lparr>OUTLINER := OUTLINER emptyUsages @ [uo]\<rparr>)) = Inl e"
  shows "runPipeline ag sched inp = Some (Inl e)"
proof -
  obtain r us2 where st: "strategyLoop ag outline (customInstructions inp) (sections outline) []
      (emptyUsages\<lparr>OUTLINER := OUTLINER emptyUsages @ [uo]\<rparr>) = (r, us2)" by force
  with assms(2) have "r = Inl e" by simp
  with assms(1) st show ?thesis by (simp add: runPipeline_def)
qed

lemma runPipeline_phase3:
  assumes "outliner ag (subject inp) (customInstructions inp) = Inr (outline, uo)"
    and "strategyLoop ag outline (customInstructions inp) (sections outline) []
           (emptyUsages\<lparr>OUTLINER := OUTLINER emptyUsages @ [uo]\<rparr>) = (Inr plans, us2)"
  shows "runPipeline ag sched inp =
     (case fanOut ag (customInstructions inp) sched plans us2 of
        (None, us3) \<Rightarrow> None
      | (Some (Inl e), us3) \<Rightarrow> Some (Inl e)
      | (Some (Inr cs), us3) \<Rightarrow> Some (finalReviewPhase ag inp outline plans cs us3))"
  using assms by (simp add: runPipeline_def)

lemma runPipeline_reaches_review:
  assumes ol: "outliner ag (subject inp) (customInstructions inp) = Inr (outline, uo)"
    and len: "length plans = length (sections outline)"
    and calls: "\<forall>k < length (sections outline). \<exists>u.
           contentStrategist ag outline (sections outline ! k) (customInstructions inp)
             (take k plans) = Inr (plans ! k, u)"
    and lencs: "length cs = length plans"
    and secs: "\<forall>i < length plans.
           fst (processSection ag (customInstructions inp) (plans ! i) emptyUsages) = Inr (cs ! i)"
    and run: "runPipeline ag sched inp = Some r"
  shows "\<exists>us3. r = finalReviewPhase ag inp outline plans cs us3
           \<and> length (WRITER us3)
               = sum_list (map (\<lambda>p. length (WRITER (snd
                   (processSection ag (customInstructions inp) p emptyUsages)))) plans)
           \<and> length (EDITOR us3)
               = sum_list (map (\<lambda>p. length (EDITOR (snd
                   (processSection ag (customInstructions inp) p emptyUsages)))) plans)"
proof -
  let ?ci = "customInstructions inp"
  let ?us1 = "emptyUsages\<lparr>OUTLINER := OUTLINER emptyUsages @ [uo]\<rparr>"
  from strategyLoop_succeeds [of plans "sections outline" ag outline ?ci "[]" ?us1] len calls
  have "fst (strategyLoop ag outline ?ci (sections outline) [] ?us1) = Inr plans" by simp
  then obtain us2 where st: "strategyLoop ag outline ?ci (sections outline) [] ?us1
      = (Inr plans, us2)" by (cases "strategyLoop ag outline ?ci (sections outline) [] ?us1") simp
  from strategyLoop_frame [OF st]
  have us2: "WRITER us2 = []" "EDITOR us2 = []" by (simp_all add: emptyUsages_def)
  obtain res us3 where fo: "fanOut ag ?ci sched plans us2 = (res, us3)" by force
  from run have "res \<noteq> None"
    unfolding runPipeline_phase3 [OF ol st] fo by (auto split: option.splits)
  then obtain r' where r': "res = Some r'" by blast
  from fanOut_result [where sched = sched and us = us2 and r = r', OF lencs secs] fo r' have "r' = Inr cs" by simp
  with fo r' have fo': "fanOut ag ?ci sched plans us2 = (Some (Inr cs), us3)" by simp
  from run have "r = finalReviewPhase ag inp outline plans cs us3"
    unfolding runPipeline_phase3 [OF ol st] fo' by simp
  with fanOut_ledger [OF fo'] us2 show ?thesis by auto
qed

lemma runPipeline_settles:
  assumes ol: "outliner ag (subject inp) (customInstructions inp) = Inr (outline, uo)"
    and len: "length plans = length (sections outline)"
    and calls: "\<forall>k < length (sections outline). \<exists>u.
           contentStrategist ag outline (sections outline ! k) (customInstructions inp)
             (take k plans) = Inr (plans ! k, u)"
    and enough: "\<forall>i < length plans. 6 \<le> count_list sched i"
  shows "runPipeline ag sched inp \<noteq> None"
proof -
  let ?ci = "customInstructions inp"
  let ?us1 = "emptyUsages\<lparr>OUTLINER := OUTLINER emptyUsages @ [uo]\<rparr>"
  from strategyLoop_succeeds [of plans "sections outline" ag outline ?ci "[]" ?us1] len calls
  have "fst (strategyLoop ag outline ?ci (sections outline) [] ?us1) = Inr plans" by simp
  then obtain us2 where st: "strategyLoop ag outline ?ci (sections outline) [] ?us1
      = (Inr plans, us2)" by (cases "strategyLoop ag outline ?ci (sections outline) [] ?us1") simp
  from fanOut_settles [where ag = ag and ci = ?ci and us = us2, OF enough] show ?thesis
    unfolding runPipeline_phase3 [OF ol st]
    by (auto split: prod.splits option.splits sum.splits)
qed

lemma runPipeline_section_fails:
  assumes ol: "outliner ag (subject inp) (customInstructions inp) = Inr (outline, uo)"
    and len: "length plans = length (sections outline)"
    and calls: "\<forall>k < length (sections outline). \<exists>u.
           contentStrategist ag outline (sections outline ! k) (customInstructions inp)
             (take k plans) = Inr (plans ! k, u)"
    and bad: "i < length plans"
      "fst (processSection ag (customInstructions inp) (plans ! i) emptyUsages) = Inl e"
    and run: "runPipeline ag sched inp = Some r"
  shows "\<exists>j e'. j < length plans
           \<and> fst (processSection ag (customInstructions inp) (plans ! j) emptyUsages) = Inl e'
           \<and> r = Inl e'"
proof -
  let ?ci = "customInstructions inp"
  let ?us1 = "emptyUsages\<lparr>OUTLINER := OUTLINER emptyUsages @ [uo]\<rparr>"
  from strategyLoop_succeeds [of plans "sections outline" ag outline ?ci "[]" ?us1] len calls
  have "fst (strategyLoop ag outline ?ci (sections outline) [] ?us1) = Inr plans" by simp
  then obtain us2 where st: "strategyLoop ag outline ?ci (sections outline) [] ?us1
      = (Inr plans, us2)" by (cases "strategyLoop ag outline ?ci (sections outline) [] ?us1") simp
  obtain res us3 where fo: "fanOut ag ?ci sched plans us2 = (res, us3)" by force
  from run have "res \<noteq> None"
    unfolding runPipeline_phase3 [OF ol st] fo by (auto split: option.splits)
  then obtain r' where r': "res = Some r'" by blast
  from fanOut_failure [where sched = sched and us = us2 and r = r', OF _ bad] fo r'
  obtain j e' where j: "j < length plans"
      "fst (processSection ag ?ci (plans ! j) emptyUsages) = Inl e'" "r' = Inl e'"
    by auto
  from run have "r = Inl e'"
    unfolding runPipeline_phase3 [OF ol st] fo r' j(3) by simp
  with j show ?thesis by blast
qed

section \<open>The revision loop unrolled\<close>

lemma sectionLoop_round:
  assumes "\<not> isApproved st" and "iterations st < MAX_ITERATIONS"
    and "writer ag p ci (currentFeedback st) = Inr w"
    and "editor ag (writtenContent w) ci (editorFeedbackOf (currentFeedback st) w) = Inr (f, e)"
  shows "sectionLoop ag ci p st us =
     sectionLoop ag ci p
       (afterReview (st\<lparr>iterations := iterations st + 1,
                        currentContent := Some (writtenContent w)\<rparr>) f)
       (us\<lparr>WRITER := WRITER us @ [writerUsage w], EDITOR := EDITOR us @ [e]\<rparr>)"
  using assms by (subst sectionLoop.simps) (simp add: Let_def)

lemma sectionLoop_exit:
  "isApproved st \<or> \<not> iterations st < MAX_ITERATIONS \<Longrightarrow>
     sectionLoop ag ci p st us = (Inr st, us)"
  by (subst sectionLoop.simps) auto

lemma sectionLoop_one_round:
  assumes "writer ag p ci None = Inr w1"
    and "editor ag (writtenContent w1) ci None = Inr (f1, e1)"
    and "approved f1"
  shows "sectionLoop ag ci p initialState us =
     (Inr \<lparr>isApproved = True, iterations = 1, currentContent = Some (writtenContent w1),
           currentFeedback = None\<rparr>,
      us\<lparr>WRITER := WRITER us @ [writerUsage w1], EDITOR := EDITOR us @ [e1]\<rparr>)"
proof -
  have "sectionLoop ag ci p initialState us =
     sectionLoop ag ci p
       (afterReview (initialState\<lparr>iterations := iterations initialState + 1,
                        currentContent := Some (writtenContent w1)\<rparr>) f1)
       (us\<lparr>WRITER := WRITER us @ [writerUsage w1], EDITOR := EDITOR us @ [e1]\<rparr>)"
    using assms
    by (intro sectionLoop_round)
      (simp_all add: initialState_def MAX_ITERATIONS_def editorFeedbackOf_def)
  also have "\<dots> = (Inr \<lparr>isApproved = True, iterations = 1,
        currentContent = Some (writtenContent w1), currentFeedback = None\<rparr>,
      us\<lparr>WRITER := WRITER us @ [writerUsage w1], EDITOR := EDITOR us @ [e1]\<rparr>)"
    using assms(3)
    by (subst sectionLoop_exit) (simp_all add: afterReview_def initialState_def Let_def)
  finally show ?thesis .
qed

lemma sectionLoop_three_rounds:
  assumes "writer ag p ci None = Inr w1"
    and "editor ag (writtenContent w1) ci None = Inr (f1, e1)"
    and "\<not> approved f1"
    and "writer ag p ci
           (Some \<lparr>previousContent = writtenContent w1, editorFeedback = f1\<rparr>) = Inr w2"
    and "editor ag (writtenContent w2) ci
           (Some \<lparr>priorContent = writtenContent w1, previousFeedback = f1,
                  writerResponse = responseToEditorFeedback w2\<rparr>) = Inr (f2, e2)"
    and "\<not> approved f2"
    and "writer ag p ci
           (Some \<lparr>previousContent = writtenContent w2, editorFeedback = f2\<rparr>) = Inr w3"
    and "editor ag (writtenContent w3) ci
           (Some \<lparr>priorContent = writtenContent w2, previousFeedback = f2,
                  writerResponse = responseToEditorFeedback w3\<rparr>) = Inr (f3, e3)"
  shows "sectionLoop ag ci p initialState us =
     (Inr \<lparr>isApproved = approved f3, iterations = 3,
           currentContent = Some (writtenContent w3),
           currentFeedback =
             Some \<lparr>previousContent = writtenContent w2, editorFeedback = f2\<rparr>\<rparr>,
      us\<lparr>WRITER := WRITER us @ [writerUsage w1, writerUsage w2, writerUsage w3],
         EDITOR := EDITOR us @ [e1, e2, e3]\<rparr>)"
proof -
  define st1 where "st1 = \<lparr>isApproved = False, iterations = 1,
      currentContent = Some (writtenContent w1),
      currentFeedback = Some \<lparr>previousContent = writtenContent w1, editorFeedback = f1\<rparr>\<rparr>"
  define st2 where "st2 = \<lparr>isApproved = False, iterations = 2,
      currentContent = Some (writtenContent w2),
      currentFeedback = Some \<lparr>previousContent = writtenContent w2, editorFeedback = f2\<rparr>\<rparr>"
  define st3 where "st3 = \<lparr>isApproved = approved f3, iterations = 3,
      currentContent = Some (writtenContent w3),
      currentFeedback = Some \<lparr>previousContent = writtenContent w2, editorFeedback = f2\<rparr>\<rparr>"
  define us1 where "us1 = us\<lparr>WRITER := WRITER us @ [writerUsage w1], EDITOR := EDITOR us @ [e1]\<rparr>"
  define us2 where "us2 = us1\<lparr>WRITER := WRITER us1 @ [writerUsage w2], EDITOR := EDITOR us1 @ [e2]\<rparr>"
  define us3 where "us3 = us2\<lparr>WRITER := WRITER us2 @ [writerUsage w3], EDITOR := EDITOR us2 @ [e3]\<rparr>"
  have a1: "afterReview (initialState\<lparr>iterations := iterations initialState + 1,
      currentContent := Some (writtenContent w1)\<rparr>) f1 = st1"
    using assms(3) by (simp add: afterReview_def initialState_def Let_def MAX_ITERATIONS_def st1_def)
  have a2: "afterReview (st1\<lparr>iterations := iterations st1 + 1,
      currentContent := Some (writtenContent w2)\<rparr>) f2 = st2"
    using assms(6) by (simp add: afterReview_def Let_def MAX_ITERATIONS_def st1_def st2_def)
  have a3: "afterReview (st2\<lparr>iterations := iterations st2 + 1,
      currentContent := Some (writtenContent w3)\<rparr>) f3 = st3"
    by (simp add: afterReview_def Let_def MAX_ITERATIONS_def st2_def st3_def)
  have "sectionLoop ag ci p initialState us = sectionLoop ag ci p st1 us1"
    unfolding a1 [symmetric] us1_def using assms(1,2)
    by (intro sectionLoop_round)
      (simp_all add: initialState_def MAX_ITERATIONS_def editorFeedbackOf_def)
  also have "\<dots> = sectionLoop ag ci p st2 us2"
    unfolding a2 [symmetric] us2_def using assms(4,5)
    by (intro sectionLoop_round)
      (simp_all add: st1_def MAX_ITERATIONS_def editorFeedbackOf_def)
  also have "\<dots> = sectionLoop ag ci p st3 us3"
    unfolding a3 [symmetric] us3_def using assms(7,8)
    by (intro sectionLoop_round)
      (simp_all add: st2_def MAX_ITERATIONS_def editorFeedbackOf_def)
  also have "\<dots> = (Inr st3, us3)"
    by (rule sectionLoop_exit) (simp add: st3_def MAX_ITERATIONS_def)
  finally show ?thesis
    by (simp add: st3_def us3_def us2_def us1_def)
qed

section \<open>The stub agents' run\<close>

lemma demo_run:
  "\<exists>us3. runPipeline demoAgents fairSchedule demoInput
     = Some (finalReviewPhase demoAgents demoInput demoOutline demoPlans
         [demoDraft ''A'' ''v1'', demoDraft ''B'' ''v1++''] us3)"
proof -
  let ?ci = "customInstructions demoInput"
  let ?cs = "[demoDraft ''A'' ''v1'', demoDraft ''B'' ''v1++'']"
  have ol: "outliner demoAgents (subject demoInput) ?ci = Inr (demoOutline, noUsage)"
    by (simp add: demoAgents_def)
  have len: "length demoPlans = length (sections demoOutline)"
    by (simp add: demoPlans_def demoOutline_def)
  have calls: "\<forall>k < length (sections demoOutline). \<exists>u.
      contentStrategist demoAgents demoOutline (sections demoOutline ! k) ?ci
        (take k demoPlans) = Inr (demoPlans ! k, u)"
    by (simp add: demoPlans_def demoOutline_def demoAgents_def demoStrategist_def demoPlan_def
        less_Suc_eq)
  have lencs: "length ?cs = length demoPlans" by (simp add: demoPlans_def)
  have sa: "fst (processSection demoAgents ?ci (demoPlan ''A'' []) emptyUsages)
      = Inr (demoDraft ''A'' ''v1'')" by code_simp
  have sb: "fst (processSection demoAgents ?ci (demoPlan ''B'' [''A'']) emptyUsages)
      = Inr (demoDraft ''B'' ''v1++'')" by code_simp
  have secs: "\<forall>i < length demoPlans.
      fst (processSection demoAgents ?ci (demoPlans ! i) emptyUsages) = Inr (?cs ! i)"
    using sa sb by (simp add: demoPlans_def less_Suc_eq)
  have enough: "\<forall>i < length demoPlans. 6 \<le> count_list fairSchedule i"
    by (simp add: demoPlans_def fairSchedule_def less_Suc_eq)
  from runPipeline_settles [OF ol len calls enough]
  obtain r where r: "runPipeline demoAgents fairSchedule demoInput = Some r" by blast
  from runPipeline_reaches_review [OF ol len calls lencs secs r] r show ?thesis by auto
qed

section \<open>The first rejection\<close>

lemma resume_task: "fst (resume ag ci t us) = fst (resume ag ci t emptyUsages)"
  by (subst resume_append) simp

lemma advance_settled: "\<not> pending t \<Longrightarrow> advance ag ci k t = t"
  by (induction k) (simp_all add: resume_settled)

lemma rejected_settled: "rejected t \<Longrightarrow> \<not> pending t"
  by (auto simp: rejected_def pending_def split: TaskStatus.splits)

lemma outcome_advance: "outcome ag ci (advance ag ci k t) = outcome ag ci t"
  by (induction k arbitrary: t) (simp_all add: outcome_resume)

lemma advance_rejected_pending:
  assumes "\<not> rejected (advance ag ci k t)"
    and "status (advance ag ci m t) = Rejected e"
  shows "pending t"
proof (rule ccontr)
  assume "\<not> pending t"
  then have "advance ag ci k t = t" "advance ag ci m t = t"
    by (simp_all add: advance_settled)
  with assms show False by (simp add: rejected_def)
qed

lemma advance_move_not_rejected:
  assumes "\<not> rejected (advance ag ci (Suc k) t)"
  shows "\<not> rejected (fst (resume ag ci t emptyUsages))"
proof
  assume r: "rejected (fst (resume ag ci t emptyUsages))"
  then have "advance ag ci k (fst (resume ag ci t emptyUsages))
      = fst (resume ag ci t emptyUsages)"
    by (intro advance_settled rejected_settled)
  with r assms show False by simp
qed

lemma promiseAll_first_rejection:
  assumes "j < length tasks"
    and "\<forall>i < length tasks. \<not> rejected (advance ag ci (count_list pre i) (tasks ! i))"
    and "status (advance ag ci (count_list pre j + 1) (tasks ! j)) = Rejected e"
  shows "fst (promiseAll ag ci (pre @ j # post) tasks us) = Some (Inl e)"
  using assms
proof (induction pre arbitrary: tasks us)
  case Nil
  let ?t = "fst (resume ag ci (tasks ! j) emptyUsages)"
  from Nil.prems(3) have rej: "status ?t = Rejected e" by simp
  from Nil.prems(1,2) have "\<not> rejected (advance ag ci 0 (tasks ! j))" by simp
  from this Nil.prems(3) have "pending (tasks ! j)" by (rule advance_rejected_pending)
  then have "\<not> fulfilled (tasks ! j)"
    by (auto simp: pending_def fulfilled_def split: TaskStatus.splits)
  with Nil.prems(1) have nf: "\<not> list_all fulfilled tasks" by (auto simp: list_all_length)
  obtain t us' where r: "resume ag ci (tasks ! j) us = (t, us')" by force
  with resume_task [of ag ci "tasks ! j" us] have "t = ?t" by simp
  with rej have "status t = Rejected e" by simp
  with nf Nil.prems(1) r show ?case by simp
next
  case (Cons i pre)
  from Cons.prems(1,2)
  have "\<not> rejected (advance ag ci (count_list (i # pre) j) (tasks ! j))" by blast
  from this Cons.prems(3) have "pending (tasks ! j)" by (rule advance_rejected_pending)
  then have "\<not> fulfilled (tasks ! j)"
    by (auto simp: pending_def fulfilled_def split: TaskStatus.splits)
  with Cons.prems(1) have nf: "\<not> list_all fulfilled tasks" by (auto simp: list_all_length)
  show ?case
  proof (cases "i < length tasks")
    case False
    with nf have step: "promiseAll ag ci ((i # pre) @ j # post) tasks us
        = promiseAll ag ci (pre @ j # post) tasks us" by simp
    from False Cons.prems(2)
    have a: "\<forall>k < length tasks. \<not> rejected (advance ag ci (count_list pre k) (tasks ! k))"
      by auto
    from False Cons.prems(1,3)
    have b: "status (advance ag ci (count_list pre j + 1) (tasks ! j)) = Rejected e"
      by auto
    from Cons.prems(1) a b show ?thesis unfolding step by (rule Cons.IH)
  next
    case True
    let ?t = "fst (resume ag ci (tasks ! i) emptyUsages)"
    obtain t us' where r: "resume ag ci (tasks ! i) us = (t, us')" by force
    with resume_task [of ag ci "tasks ! i" us] have t: "t = ?t" by simp
    from Cons.prems(2) True
    have "\<not> rejected (advance ag ci (Suc (count_list pre i)) (tasks ! i))" by auto
    then have nr: "\<not> rejected ?t" by (rule advance_move_not_rejected)
    with nf True r t have step: "promiseAll ag ci ((i # pre) @ j # post) tasks us
        = promiseAll ag ci (pre @ j # post) (tasks[i := ?t]) us'"
      by (auto simp: rejected_def split: TaskStatus.splits)
    have len: "j < length (tasks[i := ?t])" using Cons.prems(1) by simp
    have a: "\<forall>k < length (tasks[i := ?t]).
        \<not> rejected (advance ag ci (count_list pre k) ((tasks[i := ?t]) ! k))"
    proof (intro allI impI)
      fix k assume k: "k < length (tasks[i := ?t])"
      with Cons.prems(2)
      have "\<not> rejected (advance ag ci (count_list (i # pre) k) (tasks ! k))" by simp
      with k show "\<not> rejected (advance ag ci (count_list pre k) ((tasks[i := ?t]) ! k))"
        by (cases "k = i") simp_all
    qed
    have b: "status (advance ag ci (count_list pre j + 1) ((tasks[i := ?t]) ! j)) = Rejected e"
      using Cons.prems(1,3) by (cases "j = i") simp_all
    from len a b show ?thesis unfolding step by (rule Cons.IH)
  qed
qed

lemma fanOut_first_rejection:
  assumes "j < length plans"
    and "\<forall>i < length plans.
           \<not> rejected (advance ag ci (count_list pre i) (startTask (plans ! i)))"
    and "status (advance ag ci (count_list pre j + 1) (startTask (plans ! j))) = Rejected e"
  shows "fst (fanOut ag ci (pre @ j # post) plans us) = Some (Inl e)"
  unfolding fanOut_def using assms
  by (intro promiseAll_first_rejection) simp_all

lemma rejected_task_fails:
  assumes "status (advance ag ci k (startTask p)) = Rejected e"
  shows "fst (processSection ag ci p us) = Inl e"
proof -
  from assms have "\<not> pending (advance ag ci k (startTask p))"
    by (simp add: pending_def)
  then have "outcome ag ci (advance ag ci k (startTask p)) = Rejected e"
    using assms by (simp add: outcome_settled)
  then have "outcome ag ci (startTask p) = Rejected e" by (simp add: outcome_advance)
  with outcome_startTask [of ag ci p us] show ?thesis
    by (cases "fst (processSection ag ci p us)") simp_all
qed

lemma runPipeline_first_rejection:
  assumes ol: "outliner ag (subject inp) (customInstructions inp) = Inr (outline, uo)"
    and len: "length plans = length (sections outline)"
    and calls: "\<forall>k < length (sections outline). \<exists>u.
           contentStrategist ag outline (sections outline ! k) (customInstructions inp)
             (take k plans) = Inr (plans ! k, u)"
    and j: "j < length plans"
    and before: "\<forall>i < length plans. \<not> rejected
           (advance ag (customInstructions inp) (count_list pre i) (startTask (plans ! i)))"
    and now: "status (advance ag (customInstructions inp) (count_list pre j + 1)
           (startTask (plans ! j))) = Rejected e"
  shows "runPipeline ag (pre @ j # post) inp = Some (Inl e)"
proof -
  let ?ci = "customInstructions inp"
  let ?us1 = "emptyUsages\<lparr>OUTLINER := OUTLINER emptyUsages @ [uo]\<rparr>"
  from strategyLoop_succeeds [of plans "sections outline" ag outline ?ci "[]" ?us1] len calls
  have "fst (strategyLoop ag outline ?ci (sections outline) [] ?us1) = Inr plans" by simp
  then obtain us2 where st: "strategyLoop ag outline ?ci (sections outline) [] ?us1
      = (Inr plans, us2)" by (cases "strategyLoop ag outline ?ci (sections outline) [] ?us1") simp
  from fanOut_first_rejection [where us = us2 and post = post, OF j before now] show ?thesis
    unfolding runPipeline_phase3 [OF ol st]
    by (auto split: prod.splits option.splits sum.splits)
qed

section \<open>Facts about the outline's nesting fields\<close>

lemma strategyLoop_renest:
  assumes "\<forall>sec \<in> set secs. \<forall>prev.
      contentStrategist ag' outline' (renestSection lv subs sec) ci prev
        = contentStrategist ag outline sec ci prev"
  shows "strategyLoop ag' outline' ci (map (renestSection lv subs) secs) acc us
       = strategyLoop ag outline ci secs acc us"
  using assms
proof (induction secs arbitrary: acc us)
  case Nil
  then show ?case by simp
next
  case (Cons sec rest)
  from Cons.prems
  have first: "contentStrategist ag' outline' (renestSection lv subs sec) ci acc
      = contentStrategist ag outline sec ci acc" by simp
  from Cons.prems
  have "\<forall>sec \<in> set rest. \<forall>prev.
      contentStrategist ag' outline' (renestSection lv subs sec) ci prev
        = contentStrategist ag outline sec ci prev" by simp
  then have rest: "\<And>acc us. strategyLoop ag' outline' ci (map (renestSection lv subs) rest) acc us
      = strategyLoop ag outline ci rest acc us" by (rule Cons.IH)
  show ?case by (simp add: first rest split: sum.splits prod.splits)
qed

lemma resume_agents:
  "writer ag' = writer ag \<Longrightarrow> editor ag' = editor ag
     \<Longrightarrow> resume ag' ci t us = resume ag ci t us"
  by (auto simp: resume_def split: TaskStatus.splits)

lemma promiseAll_agents:
  assumes "writer ag' = writer ag" and "editor ag' = editor ag"
  shows "promiseAll ag' ci sched tasks us = promiseAll ag ci sched tasks us"
proof (induction sched arbitrary: tasks us)
  case Nil
  show ?case by simp
next
  case (Cons i sched)
  obtain t us' where r: "resume ag ci (tasks ! i) us = (t, us')" by force
  with resume_agents [OF assms, of ci "tasks ! i" us]
  have r': "resume ag' ci (tasks ! i) us = (t, us')" by simp
  show ?case by (cases "status t") (simp_all add: r r' Cons.IH)
qed

lemma fanOut_agents:
  "writer ag' = writer ag \<Longrightarrow> editor ag' = editor ag
     \<Longrightarrow> fanOut ag' ci sched plans us = fanOut ag ci sched plans us"
  unfolding fanOut_def by (rule promiseAll_agents)

lemma finalReviewPhase_renest:
  assumes "editorInChief ag' inp outline' plans cs = editorInChief ag inp outline plans cs"
  shows "finalReviewPhase ag' inp outline' plans cs us
       = map_sum id (\<lambda>d. d\<lparr>articleOutline := outline'\<rparr>)
           (finalReviewPhase ag inp outline plans cs us)"
  using assms by (simp add: finalReviewPhase_def Let_def split: sum.splits)

lemma runPipeline_renest:
  assumes ol: "outliner ag (subject inp) (customInstructions inp) = Inr (outline, uo)"
    and ol': "outliner ag' (subject inp) (customInstructions inp)
        = Inr (renest lv subs outline, uo)"
    and strat: "\<forall>sec \<in> set (sections outline). \<forall>prev.
        contentStrategist ag' (renest lv subs outline) (renestSection lv subs sec)
          (customInstructions inp) prev
        = contentStrategist ag outline sec (customInstructions inp) prev"
    and wr: "writer ag' = writer ag"
    and ed: "editor ag' = editor ag"
    and chief: "\<forall>plans cs. editorInChief ag' inp (renest lv subs outline) plans cs
        = editorInChief ag inp outline plans cs"
  shows "runPipeline ag' sched inp
       = map_option (map_sum id (\<lambda>d. d\<lparr>articleOutline := renest lv subs outline\<rparr>))
           (runPipeline ag sched inp)"
proof -
  let ?ci = "customInstructions inp"
  let ?us1 = "emptyUsages\<lparr>OUTLINER := OUTLINER emptyUsages @ [uo]\<rparr>"
  have secs: "sections (renest lv subs outline)
      = map (renestSection lv subs) (sections outline)" by (simp add: renest_def)
  from strat
  have loop: "strategyLoop ag' (renest lv subs outline) ?ci
        (sections (renest lv subs outline)) [] ?us1
      = strategyLoop ag outline ?ci (sections outline) [] ?us1"
    unfolding secs by (rule strategyLoop_renest)
  obtain r2 us2 where st: "strategyLoop ag outline ?ci (sections outline) [] ?us1 = (r2, us2)"
    by force
  show ?thesis
  proof (cases r2)
    case (Inl e)
    with ol ol' loop st show ?thesis by (simp add: runPipeline_def)
  next
    case (Inr plans)
    obtain r3 us3 where fo: "fanOut ag ?ci sched plans us2 = (r3, us3)" by force
    with fanOut_agents [OF wr ed, of ?ci sched plans us2]
    have fo': "fanOut ag' ?ci sched plans us2 = (r3, us3)" by simp
    from chief have fin: "\<And>cs. finalReviewPhase ag' inp (renest lv subs outline) plans cs us3
        = map_sum id (\<lambda>d. d\<lparr>articleOutline := renest lv subs outline\<rparr>)
            (finalReviewPhase ag inp outline plans cs us3)"
      by (intro finalReviewPhase_renest) simp
    from ol ol' loop st Inr fo fo' show ?thesis
      by (simp add: runPipeline_def fin split: option.splits sum.splits)
  qed
qed

section \<open>The claims\<close>

text \<open>
  C1. When the revision loop of every plan succeeds, with \<open>cs ! i\<close> the content the
  loop returns for the \<open>i\<close>-th plan, the fan-out over the plans can only be fulfilled
  with exactly the list \<open>cs\<close>: as many contents as plans, the \<open>i\<close>-th one from the
  \<open>i\<close>-th plan, whatever the order in which the calls of the sections settle. And it
  is fulfilled under every schedule that lets each section's calls settle (six moves per
  section are always enough).
\<close>

theorem fanOut_keeps_plan_order:
  assumes "length cs = length plans"
    and "\<forall>i < length plans. fst (processSection ag ci (plans ! i) us) = Inr (cs ! i)"
  shows "(\<forall>sched r. fst (fanOut ag ci sched plans us) = Some r \<longrightarrow> r = Inr cs)
       \<and> (\<forall>sched. (\<forall>i < length plans. 6 \<le> count_list sched i)
             \<longrightarrow> fst (fanOut ag ci sched plans us) = Some (Inr cs))"
proof (intro conjI allI impI)
  fix sched r
  assume "fst (fanOut ag ci sched plans us) = Some r"
  with assms show "r = Inr cs" by (rule fanOut_result)
next
  fix sched
  assume "\<forall>i < length plans. 6 \<le> count_list sched i"
  then have "fst (fanOut ag ci sched plans us) \<noteq> None" by (rule fanOut_settles)
  then obtain r where r: "fst (fanOut ag ci sched plans us) = Some r" by blast
  with assms have "r = Inr cs" by (rule fanOut_result)
  with r show "fst (fanOut ag ci sched plans us) = Some (Inr cs)" by simp
qed

theorem fanOut_keeps_plan_order_witness:
  "length [demoDraft ''A'' ''v1'', demoDraft ''B'' ''v1++'']
     = length [demoPlan ''A'' [], demoPlan ''B'' [''A'']]
   \<and> fst (processSection demoAgents None (demoPlan ''A'' []) emptyUsages)
       = Inr (demoDraft ''A'' ''v1'')
   \<and> fst (processSection demoAgents None (demoPlan ''B'' [''A'']) emptyUsages)
       = Inr (demoDraft ''B'' ''v1++'')
   \<and> 6 \<le> count_list [1, 0, 1, 0, 1, 0, 1, 0, 1, 0, 1, 0 :: nat] 0
   \<and> 6 \<le> count_list [1, 0, 1, 0, 1, 0, 1, 0, 1, 0, 1, 0 :: nat] 1
   \<and> fst (fanOut demoAgents None [1, 0, 1, 0, 1, 0, 1, 0, 1, 0, 1, 0]
            [demoPlan ''A'' [], demoPlan ''B'' [''A'']] emptyUsages)
       = Some (Inr [demoDraft ''A'' ''v1'', demoDraft ''B'' ''v1++''])
   \<and> fst (fanOut demoAgents None [1, 1, 1, 1, 1, 1, 0, 0]
            [demoPlan ''A'' [], demoPlan ''B'' [''A'']] emptyUsages)
       = Some (Inr [demoDraft ''A'' ''v1'', demoDraft ''B'' ''v1++''])"
proof -
  let ?plans = "[demoPlan ''A'' [], demoPlan ''B'' [''A'']]"
  let ?cs = "[demoDraft ''A'' ''v1'', demoDraft ''B'' ''v1++'']"
  let ?sched = "[1, 0, 1, 0, 1, 0, 1, 0, 1, 0, 1, 0 :: nat]"
  have len: "length ?cs = length ?plans" by simp
  have a: "fst (processSection demoAgents None (demoPlan ''A'' []) emptyUsages)
      = Inr (demoDraft ''A'' ''v1'')" by code_simp
  have b: "fst (processSection demoAgents None (demoPlan ''B'' [''A'']) emptyUsages)
      = Inr (demoDraft ''B'' ''v1++'')" by code_simp
  have each: "\<forall>i < length ?plans.
      fst (processSection demoAgents None (?plans ! i) emptyUsages) = Inr (?cs ! i)"
    using a b by (simp add: less_Suc_eq)
  have c0: "6 \<le> count_list ?sched 0" and c1: "6 \<le> count_list ?sched 1" by simp_all
  then have enough: "\<forall>i < length ?plans. 6 \<le> count_list ?sched i"
    by (simp add: less_Suc_eq)
  have early: "fst (fanOut demoAgents None [1, 1, 1, 1, 1, 1, 0, 0] ?plans emptyUsages)
      \<noteq> None" by code_simp
  note main = fanOut_keeps_plan_order [OF len each]
  from main enough have full: "fst (fanOut demoAgents None ?sched ?plans emptyUsages)
      = Some (Inr ?cs)" by blast
  from main early
  have "fst (fanOut demoAgents None [1, 1, 1, 1, 1, 1, 0, 0] ?plans emptyUsages)
      = Some (Inr ?cs)" by blast
  with len a b c0 c1 full show ?thesis by blast
qed

text \<open>
  C2. The revision loop is a total function (its termination is proved with the measure
  \<open>MAX_ITERATIONS - iterations\<close>), and from the initial state, for every plan and all
  agents: when it returns, the iteration counter is between 1 and 3 and each of the writer
  and the editor has added exactly that many records, one per round trip; when a call
  fails, at most 2 round trips were completed before the failing one, which is either a
  writer call (the writer has added as many records as the editor) or an editor call (the
  writer has added one more). So no run makes more than 3 writer calls or more than 3
  editor calls.
\<close>

theorem revision_loop_bounded:
  "case sectionLoop ag ci sectionPlan initialState us of
     (Inr st, us') \<Rightarrow>
        1 \<le> iterations st \<and> iterations st \<le> MAX_ITERATIONS \<and> MAX_ITERATIONS = 3
        \<and> length (WRITER us') = length (WRITER us) + iterations st
        \<and> length (EDITOR us') = length (EDITOR us) + iterations st
   | (Inl err, us') \<Rightarrow>
        (\<exists>n. n < 3
           \<and> length (EDITOR us') = length (EDITOR us) + n
           \<and> (length (WRITER us') = length (WRITER us) + n
                \<or> length (WRITER us') = length (WRITER us) + n + 1))"
proof -
  obtain r us' where run: "sectionLoop ag ci sectionPlan initialState us = (r, us')"
    by (cases "sectionLoop ag ci sectionPlan initialState us")
  from sectionLoop_counts [OF run]
  obtain w e where we: "length (WRITER us') = length (WRITER us) + w"
      "length (EDITOR us') = length (EDITOR us) + e"
      "case r of
         Inr st' \<Rightarrow> w = e \<and> iterations st' = iterations initialState + w
            \<and> (0 < w \<longrightarrow> iterations st' \<le> MAX_ITERATIONS)
            \<and> (\<not> isApproved initialState \<and> iterations initialState < MAX_ITERATIONS \<longrightarrow> 0 < w)
       | Inl err \<Rightarrow> (w = e \<or> w = e + 1) \<and> iterations initialState + e < MAX_ITERATIONS"
    by (elim exE conjE) (rule that)
  show ?thesis
  proof (cases r)
    case (Inl err)
    with we show ?thesis
      unfolding run by (auto simp: initialState_def MAX_ITERATIONS_def)
  next
    case (Inr st')
    with we show ?thesis
      unfolding run by (auto simp: initialState_def MAX_ITERATIONS_def)
  qed
qed

theorem revision_loop_bounded_witness:
  "(\<exists>st us'. sectionLoop demoAgents None (demoPlan ''B'' [''A'']) initialState emptyUsages
        = (Inr st, us')
      \<and> isApproved st \<and> iterations st = 3
      \<and> length (WRITER us') = 3 \<and> length (EDITOR us') = 3)
   \<and> (\<exists>st us'. sectionLoop (demoAgents\<lparr>editor := strictEditor\<rparr>) None (demoPlan ''B'' [''A''])
        initialState emptyUsages = (Inr st, us')
      \<and> \<not> isApproved st \<and> iterations st = 3
      \<and> length (WRITER us') = 3 \<and> length (EDITOR us') = 3)
   \<and> (\<exists>err us'. sectionLoop (demoAgents\<lparr>writer := failingWriter\<rparr>) None (demoPlan ''B'' [''A''])
        initialState emptyUsages = (Inl err, us')
      \<and> length (WRITER us') = 1 \<and> length (EDITOR us') = 1)"
proof -
  let ?p = "demoPlan ''B'' [''A'']"
  obtain r1 u1 where a: "sectionLoop demoAgents None ?p initialState emptyUsages = (r1, u1)"
    by force
  have a1: "fst (sectionLoop demoAgents None ?p initialState emptyUsages)
      = Inr \<lparr>isApproved = True, iterations = 3,
            currentContent = Some (demoDraft ''B'' ''v1++''),
            currentFeedback = Some \<lparr>previousContent = demoDraft ''B'' ''v1+'',
              editorFeedback = \<lparr>approved = False, feedbackPoints = []\<rparr>\<rparr>\<rparr>"
    by code_simp
  obtain r2 u2 where b: "sectionLoop (demoAgents\<lparr>editor := strictEditor\<rparr>) None ?p initialState
      emptyUsages = (r2, u2)" by force
  have b1: "fst (sectionLoop (demoAgents\<lparr>editor := strictEditor\<rparr>) None ?p initialState
      emptyUsages)
      = Inr \<lparr>isApproved = False, iterations = 3,
            currentContent = Some (demoDraft ''B'' ''v1++''),
            currentFeedback = Some \<lparr>previousContent = demoDraft ''B'' ''v1+'',
              editorFeedback = \<lparr>approved = False, feedbackPoints = [''again'']\<rparr>\<rparr>\<rparr>"
    by code_simp
  obtain r3 u3 where c: "sectionLoop (demoAgents\<lparr>writer := failingWriter\<rparr>) None ?p initialState
      emptyUsages = (r3, u3)" by force
  have c1: "fst (sectionLoop (demoAgents\<lparr>writer := failingWriter\<rparr>) None ?p initialState
      emptyUsages) = Inl (AgentError ''timeout'')"
    and c2: "length (EDITOR (snd (sectionLoop (demoAgents\<lparr>writer := failingWriter\<rparr>) None ?p
      initialState emptyUsages))) = 1"
    and c3: "length (WRITER (snd (sectionLoop (demoAgents\<lparr>writer := failingWriter\<rparr>) None ?p
      initialState emptyUsages))) = 1"
    by code_simp+
  from revision_loop_bounded [where ag = demoAgents and ci = None and sectionPlan = ?p and us = emptyUsages] a a1
  have A: "isApproved (projr r1) \<and> iterations (projr r1) = 3 \<and> r1 = Inr (projr r1)
      \<and> length (WRITER u1) = 3 \<and> length (EDITOR u1) = 3"
    by (auto simp: emptyUsages_def)
  from revision_loop_bounded [where ag = "demoAgents\<lparr>editor := strictEditor\<rparr>" and ci = None
      and sectionPlan = ?p and us = emptyUsages] b b1
  have B: "\<not> isApproved (projr r2) \<and> iterations (projr r2) = 3 \<and> r2 = Inr (projr r2)
      \<and> length (WRITER u2) = 3 \<and> length (EDITOR u2) = 3"
    by (auto simp: emptyUsages_def)
  from revision_loop_bounded [where ag = "demoAgents\<lparr>writer := failingWriter\<rparr>" and ci = None
      and sectionPlan = ?p and us = emptyUsages]
    c c1 c2 c3
  have C: "r3 = Inl (AgentError ''timeout'') \<and> length (WRITER u3) = 1 \<and> length (EDITOR u3) = 1"
    by (auto simp: emptyUsages_def)
  from a A b B c C show ?thesis by metis
qed

text \<open>
  C3 (scenario A). The outline has two sections; the editor approves the first draft of
  section 1 and rejects the first and the second draft of section 2 and approves the
  third; every call succeeds. Then every run that ends, whatever the order in which the
  calls of the two sections settle, ends with a document; the writer's and the editor's
  ledgers hold 4 records each, one per call; and the document is the title followed by
  the block of section 1, the block of section 2 and the closing blocks. The run ends
  under every schedule that lets each section's calls settle.
\<close>

theorem scenario_a_call_counts:
  assumes ol: "outliner ag (subject inp) (customInstructions inp) = Inr (outline, uo)"
    and two: "sections outline = [s1, s2]"
    and plan1: "contentStrategist ag outline s1 (customInstructions inp) [] = Inr (p1, u1)"
    and plan2: "contentStrategist ag outline s2 (customInstructions inp) [p1] = Inr (p2, u2)"
    and a1: "writer ag p1 (customInstructions inp) None = Inr a"
    and a2: "editor ag (writtenContent a) (customInstructions inp) None = Inr (fa, ea)"
    and a3: "approved fa"
    and b1: "writer ag p2 (customInstructions inp) None = Inr w1"
    and b2: "editor ag (writtenContent w1) (customInstructions inp) None = Inr (f1, e1)"
    and b3: "\<not> approved f1"
    and b4: "writer ag p2 (customInstructions inp)
           (Some \<lparr>previousContent = writtenContent w1, editorFeedback = f1\<rparr>) = Inr w2"
    and b5: "editor ag (writtenContent w2) (customInstructions inp)
           (Some \<lparr>priorContent = writtenContent w1, previousFeedback = f1,
                  writerResponse = responseToEditorFeedback w2\<rparr>) = Inr (f2, e2)"
    and b6: "\<not> approved f2"
    and b7: "writer ag p2 (customInstructions inp)
           (Some \<lparr>previousContent = writtenContent w2, editorFeedback = f2\<rparr>) = Inr w3"
    and b8: "editor ag (writtenContent w3) (customInstructions inp)
           (Some \<lparr>priorContent = writtenContent w2, previousFeedback = f2,
                  writerResponse = responseToEditorFeedback w3\<rparr>) = Inr (f3, e3)"
    and b9: "approved f3"
    and chief: "editorInChief ag inp outline [p1, p2] [writtenContent a, writtenContent w3]
           = Inr review"
  shows "(\<forall>sched r. runPipeline ag sched inp = Some r \<longrightarrow>
            (\<exists>d. r = Inr d
               \<and> length (WRITER (usages d)) = 4 \<and> length (EDITOR (usages d)) = 4
               \<and> generatedSections d = [writtenContent a, writtenContent w3]
               \<and> finalMarkdown d =
                   ''# '' @ finalArticleTitle review @ ''\<newline>\<newline>''
                     @ sectionBlock (proposedEdits review) (writtenContent a)
                     @ sectionBlock (proposedEdits review) (writtenContent w3)
                     @ notesBlock (globalFeedback review)
                     @ referencesBlock [writtenContent a, writtenContent w3]))
       \<and> (\<forall>sched. 6 \<le> count_list sched 0 \<and> 6 \<le> count_list sched 1
             \<longrightarrow> runPipeline ag sched inp \<noteq> None)"
proof -
  let ?ci = "customInstructions inp"
  let ?plans = "[p1, p2]"
  let ?cs = "[writtenContent a, writtenContent w3]"
  have len: "length ?plans = length (sections outline)" by (simp add: two)
  have calls: "\<forall>k < length (sections outline). \<exists>u.
      contentStrategist ag outline (sections outline ! k) ?ci (take k ?plans)
        = Inr (?plans ! k, u)"
    using plan1 plan2 by (simp add: two less_Suc_eq)
  have lencs: "length ?cs = length ?plans" by simp
  have sec1: "processSection ag ?ci p1 emptyUsages =
      (Inr (writtenContent a),
       emptyUsages\<lparr>WRITER := WRITER emptyUsages @ [writerUsage a],
                   EDITOR := EDITOR emptyUsages @ [ea]\<rparr>)"
    by (simp add: processSection_def finish_def sectionLoop_one_round [OF a1 a2 a3])
  have sec2: "processSection ag ?ci p2 emptyUsages =
      (Inr (writtenContent w3),
       emptyUsages\<lparr>WRITER := WRITER emptyUsages @ [writerUsage w1, writerUsage w2, writerUsage w3],
                   EDITOR := EDITOR emptyUsages @ [e1, e2, e3]\<rparr>)"
    by (simp add: processSection_def finish_def
        sectionLoop_three_rounds [OF b1 b2 b3 b4 b5 b6 b7 b8])
  have secs: "\<forall>i < length ?plans.
      fst (processSection ag ?ci (?plans ! i) emptyUsages) = Inr (?cs ! i)"
    by (simp add: sec1 sec2 less_Suc_eq)
  show ?thesis
  proof (intro conjI allI impI)
    fix sched r
    assume "runPipeline ag sched inp = Some r"
    from runPipeline_reaches_review [OF ol len calls lencs secs this]
    obtain us3 where r: "r = finalReviewPhase ag inp outline ?plans ?cs us3"
      and w0: "length (WRITER us3)
          = sum_list (map (\<lambda>p. length (WRITER (snd (processSection ag ?ci p emptyUsages)))) ?plans)"
      and e0: "length (EDITOR us3)
          = sum_list (map (\<lambda>p. length (EDITOR (snd (processSection ag ?ci p emptyUsages)))) ?plans)"
      by blast
    have w: "length (WRITER us3) = 4" and e: "length (EDITOR us3) = 4"
      unfolding w0 e0 by (simp_all add: sec1 sec2 emptyUsages_fields)
    show "\<exists>d. r = Inr d
        \<and> length (WRITER (usages d)) = 4 \<and> length (EDITOR (usages d)) = 4
        \<and> generatedSections d = ?cs
        \<and> finalMarkdown d =
            ''# '' @ finalArticleTitle review @ ''\<newline>\<newline>''
              @ sectionBlock (proposedEdits review) (writtenContent a)
              @ sectionBlock (proposedEdits review) (writtenContent w3)
              @ notesBlock (globalFeedback review)
              @ referencesBlock ?cs"
      by (simp add: r finalReviewPhase_def chief Let_def w e markdown_shape)
  next
    fix sched :: "nat list"
    assume "6 \<le> count_list sched 0 \<and> 6 \<le> count_list sched 1"
    then have "\<forall>i < length ?plans. 6 \<le> count_list sched i"
      by (simp add: less_Suc_eq)
    from runPipeline_settles [OF ol len calls this]
    show "runPipeline ag sched inp \<noteq> None" .
  qed
qed

theorem scenario_a_call_counts_witness:
  "outliner demoAgents (subject demoInput) (customInstructions demoInput)
     = Inr (demoOutline, noUsage)
   \<and> sections demoOutline = [\<lparr>secHeading = ''A'', level = 1, subSections = None\<rparr>,
                              \<lparr>secHeading = ''B'', level = 2, subSections = None\<rparr>]
   \<and> editor demoAgents (demoDraft ''A'' ''v1'') (customInstructions demoInput) None
       = Inr (\<lparr>approved = True, feedbackPoints = []\<rparr>, noUsage)
   \<and> editor demoAgents (demoDraft ''B'' ''v1'') (customInstructions demoInput) None
       = Inr (\<lparr>approved = False, feedbackPoints = []\<rparr>, noUsage)
   \<and> editor demoAgents (demoDraft ''B'' ''v1+'') (customInstructions demoInput)
        (Some \<lparr>priorContent = demoDraft ''B'' ''v1'',
               previousFeedback = \<lparr>approved = False, feedbackPoints = []\<rparr>,
               writerResponse = None\<rparr>)
       = Inr (\<lparr>approved = False, feedbackPoints = []\<rparr>, noUsage)
   \<and> editor demoAgents (demoDraft ''B'' ''v1++'') (customInstructions demoInput)
        (Some \<lparr>priorContent = demoDraft ''B'' ''v1+'',
               previousFeedback = \<lparr>approved = False, feedbackPoints = []\<rparr>,
               writerResponse = None\<rparr>)
       = Inr (\<lparr>approved = True, feedbackPoints = []\<rparr>, noUsage)
   \<and> 6 \<le> count_list fairSchedule 0 \<and> 6 \<le> count_list fairSchedule 1
   \<and> (\<exists>d. runPipeline demoAgents fairSchedule demoInput = Some (Inr d)
        \<and> length (WRITER (usages d)) = 4 \<and> length (EDITOR (usages d)) = 4
        \<and> generatedSections d = [demoDraft ''A'' ''v1'', demoDraft ''B'' ''v1++'']
        \<and> finalMarkdown d
            = ''# T\<newline>\<newline>## A\<newline>\<newline>v1\<newline>\<newline>## B\<newline>\<newline>v1++\<newline>\<newline>'')"
proof -
  let ?ci = "customInstructions demoInput"
  let ?no = "\<lparr>approved = False, feedbackPoints = []\<rparr>"
  let ?yes = "\<lparr>approved = True, feedbackPoints = []\<rparr>"
  have wc: "writtenContent (demoWritten h body) = demoDraft h body" for h body
    by (simp add: demoWritten_def)
  have wr: "responseToEditorFeedback (demoWritten h body) = None" for h body
    by (simp add: demoWritten_def)
  have ol: "outliner demoAgents (subject demoInput) ?ci = Inr (demoOutline, noUsage)"
    by (simp add: demoAgents_def)
  have two: "sections demoOutline = [\<lparr>secHeading = ''A'', level = 1, subSections = None\<rparr>,
      \<lparr>secHeading = ''B'', level = 2, subSections = None\<rparr>]"
    by (simp add: demoOutline_def)
  have plan1: "contentStrategist demoAgents demoOutline
      \<lparr>secHeading = ''A'', level = 1, subSections = None\<rparr> ?ci [] = Inr (demoPlan ''A'' [], noUsage)"
    by (simp add: demoAgents_def demoStrategist_def)
  have plan2: "contentStrategist demoAgents demoOutline
      \<lparr>secHeading = ''B'', level = 2, subSections = None\<rparr> ?ci [demoPlan ''A'' []]
      = Inr (demoPlan ''B'' [''A''], noUsage)"
    by (simp add: demoAgents_def demoStrategist_def demoPlan_def)
  have a1: "writer demoAgents (demoPlan ''A'' []) ?ci None = Inr (demoWritten ''A'' ''v1'')"
    by (simp add: demoAgents_def demoWriter_def demoWritten_def demoPlan_def)
  have a2: "editor demoAgents (writtenContent (demoWritten ''A'' ''v1'')) ?ci None
      = Inr (?yes, noUsage)"
    by (simp add: demoAgents_def demoEditor_def demoWritten_def demoDraft_def)
  have b1: "writer demoAgents (demoPlan ''B'' [''A'']) ?ci None = Inr (demoWritten ''B'' ''v1'')"
    by (simp add: demoAgents_def demoWriter_def demoWritten_def demoPlan_def)
  have b2: "editor demoAgents (writtenContent (demoWritten ''B'' ''v1'')) ?ci None
      = Inr (?no, noUsage)"
    by (simp add: demoAgents_def demoEditor_def demoWritten_def demoDraft_def)
  have b4: "writer demoAgents (demoPlan ''B'' [''A'']) ?ci
      (Some \<lparr>previousContent = writtenContent (demoWritten ''B'' ''v1''), editorFeedback = ?no\<rparr>)
      = Inr (demoWritten ''B'' ''v1+'')"
    by (simp add: demoAgents_def demoWriter_def demoWritten_def demoPlan_def demoDraft_def)
  have b5: "editor demoAgents (writtenContent (demoWritten ''B'' ''v1+'')) ?ci
      (Some \<lparr>priorContent = writtenContent (demoWritten ''B'' ''v1''), previousFeedback = ?no,
             writerResponse = responseToEditorFeedback (demoWritten ''B'' ''v1+'')\<rparr>)
      = Inr (?no, noUsage)"
    by (simp add: demoAgents_def demoEditor_def demoWritten_def demoDraft_def)
  have b7: "writer demoAgents (demoPlan ''B'' [''A'']) ?ci
      (Some \<lparr>previousContent = writtenContent (demoWritten ''B'' ''v1+''), editorFeedback = ?no\<rparr>)
      = Inr (demoWritten ''B'' ''v1++'')"
    by (simp add: demoAgents_def demoWriter_def demoWritten_def demoPlan_def demoDraft_def)
  have b8: "editor demoAgents (writtenContent (demoWritten ''B'' ''v1++'')) ?ci
      (Some \<lparr>priorContent = writtenContent (demoWritten ''B'' ''v1+''), previousFeedback = ?no,
             writerResponse = responseToEditorFeedback (demoWritten ''B'' ''v1++'')\<rparr>)
      = Inr (?yes, noUsage)"
    by (simp add: demoAgents_def demoEditor_def demoWritten_def demoDraft_def)
  have chief: "editorInChief demoAgents demoInput demoOutline
      [demoPlan ''A'' [], demoPlan ''B'' [''A'']]
      [writtenContent (demoWritten ''A'' ''v1''), writtenContent (demoWritten ''B'' ''v1++'')]
      = Inr demoReview"
    by (simp add: demoAgents_def)
  have c: "6 \<le> count_list fairSchedule 0 \<and> 6 \<le> count_list fairSchedule 1"
    by (simp add: fairSchedule_def)
  have yes: "approved ?yes" and no: "\<not> approved ?no" by simp_all
  note main = scenario_a_call_counts
    [OF ol two plan1 plan2 a1 a2 yes b1 b2 no b4 b5 no b7 b8 yes chief]
  from main c obtain r where r: "runPipeline demoAgents fairSchedule demoInput = Some r"
    by blast
  with main have "\<exists>d. r = Inr d
      \<and> length (WRITER (usages d)) = 4 \<and> length (EDITOR (usages d)) = 4
      \<and> generatedSections d
          = [writtenContent (demoWritten ''A'' ''v1''), writtenContent (demoWritten ''B'' ''v1++'')]
      \<and> finalMarkdown d =
          ''# '' @ finalArticleTitle demoReview @ ''\<newline>\<newline>''
            @ sectionBlock (proposedEdits demoReview) (writtenContent (demoWritten ''A'' ''v1''))
            @ sectionBlock (proposedEdits demoReview) (writtenContent (demoWritten ''B'' ''v1++''))
            @ notesBlock (globalFeedback demoReview)
            @ referencesBlock
                [writtenContent (demoWritten ''A'' ''v1''), writtenContent (demoWritten ''B'' ''v1++'')]"
    by blast
  then have fin: "\<exists>d. runPipeline demoAgents fairSchedule demoInput = Some (Inr d)
      \<and> length (WRITER (usages d)) = 4 \<and> length (EDITOR (usages d)) = 4
      \<and> generatedSections d = [demoDraft ''A'' ''v1'', demoDraft ''B'' ''v1++'']
      \<and> finalMarkdown d
          = ''# T\<newline>\<newline>## A\<newline>\<newline>v1\<newline>\<newline>## B\<newline>\<newline>v1++\<newline>\<newline>''"
    using r
    by (auto simp: wc demoReview_def sectionBlock_def editedContent_def notesBlock_def
        referencesBlock_def allReferences_def demoDraft_def)
  from ol two a2 b2 b5 b8 c fin show ?thesis
    unfolding wc wr by blast
qed

text \<open>
  C4. When the writer and the editor answer every call of a section and the editor
  rejects all three drafts, the revision loop ends not approved with the iteration
  counter at \<open>MAX_ITERATIONS\<close>, and the callback returns the third draft. In a run
  whose outline and strategy calls succeed and whose other sections produce contents
  too, that draft is the section's entry in the contents, and whenever the run ends it
  ends with the result of the final review phase on those contents; it does end under
  every schedule that lets each section's calls settle.
\<close>

theorem exhausted_section_returns_last_draft:
  assumes "writer ag plan (customInstructions inp) None = Inr w1"
    and "editor ag (writtenContent w1) (customInstructions inp) None = Inr (f1, e1)"
    and "\<not> approved f1"
    and "writer ag plan (customInstructions inp)
           (Some \<lparr>previousContent = writtenContent w1, editorFeedback = f1\<rparr>) = Inr w2"
    and "editor ag (writtenContent w2) (customInstructions inp)
           (Some \<lparr>priorContent = writtenContent w1, previousFeedback = f1,
                  writerResponse = responseToEditorFeedback w2\<rparr>) = Inr (f2, e2)"
    and "\<not> approved f2"
    and "writer ag plan (customInstructions inp)
           (Some \<lparr>previousContent = writtenContent w2, editorFeedback = f2\<rparr>) = Inr w3"
    and "editor ag (writtenContent w3) (customInstructions inp)
           (Some \<lparr>priorContent = writtenContent w2, previousFeedback = f2,
                  writerResponse = responseToEditorFeedback w3\<rparr>) = Inr (f3, e3)"
    and "\<not> approved f3"
  shows "(\<exists>st us'. sectionLoop ag (customInstructions inp) plan initialState us = (Inr st, us')
            \<and> \<not> isApproved st \<and> iterations st = MAX_ITERATIONS
            \<and> currentContent st = Some (writtenContent w3))
       \<and> fst (processSection ag (customInstructions inp) plan us) = Inr (writtenContent w3)
       \<and> (\<forall>outline uo plans cs j.
             outliner ag (subject inp) (customInstructions inp) = Inr (outline, uo)
             \<and> length plans = length (sections outline)
             \<and> (\<forall>k < length (sections outline). \<exists>u.
                   contentStrategist ag outline (sections outline ! k) (customInstructions inp)
                     (take k plans) = Inr (plans ! k, u))
             \<and> length cs = length plans
             \<and> (\<forall>i < length plans.
                   fst (processSection ag (customInstructions inp) (plans ! i) emptyUsages)
                     = Inr (cs ! i))
             \<and> j < length plans \<and> plans ! j = plan
             \<longrightarrow> cs ! j = writtenContent w3
                 \<and> (\<forall>sched r. runPipeline ag sched inp = Some r
                       \<longrightarrow> (\<exists>us3. r = finalReviewPhase ag inp outline plans cs us3))
                 \<and> (\<forall>sched. (\<forall>i < length plans. 6 \<le> count_list sched i)
                       \<longrightarrow> runPipeline ag sched inp \<noteq> None))"
proof (intro conjI allI impI)
  note loop = sectionLoop_three_rounds [OF assms(1,2,3,4,5,6,7,8)]
  show "\<exists>st us'. sectionLoop ag (customInstructions inp) plan initialState us = (Inr st, us')
      \<and> \<not> isApproved st \<and> iterations st = MAX_ITERATIONS
      \<and> currentContent st = Some (writtenContent w3)"
    using assms(9) by (simp add: loop MAX_ITERATIONS_def)
  show last: "fst (processSection ag (customInstructions inp) plan us) = Inr (writtenContent w3)"
    for us
    by (simp add: processSection_def finish_def
        sectionLoop_three_rounds [OF assms(1,2,3,4,5,6,7,8)])
  fix outline uo plans cs j
  assume ctx: "outliner ag (subject inp) (customInstructions inp) = Inr (outline, uo)
      \<and> length plans = length (sections outline)
      \<and> (\<forall>k < length (sections outline). \<exists>u.
            contentStrategist ag outline (sections outline ! k) (customInstructions inp)
              (take k plans) = Inr (plans ! k, u))
      \<and> length cs = length plans
      \<and> (\<forall>i < length plans.
            fst (processSection ag (customInstructions inp) (plans ! i) emptyUsages)
              = Inr (cs ! i))
      \<and> j < length plans \<and> plans ! j = plan"
  then have ol: "outliner ag (subject inp) (customInstructions inp) = Inr (outline, uo)"
    and len: "length plans = length (sections outline)"
    and calls: "\<forall>k < length (sections outline). \<exists>u.
            contentStrategist ag outline (sections outline ! k) (customInstructions inp)
              (take k plans) = Inr (plans ! k, u)"
    and lencs: "length cs = length plans"
    and secs: "\<forall>i < length plans.
            fst (processSection ag (customInstructions inp) (plans ! i) emptyUsages)
              = Inr (cs ! i)"
    and j: "j < length plans" "plans ! j = plan"
    by simp_all
  from secs j last [of emptyUsages] show "cs ! j = writtenContent w3" by auto
  {
    fix sched r
    assume "runPipeline ag sched inp = Some r"
    from runPipeline_reaches_review [OF ol len calls lencs secs this]
    show "\<exists>us3. r = finalReviewPhase ag inp outline plans cs us3" by blast
  }
  {
    fix sched
    assume "\<forall>i < length plans. 6 \<le> count_list sched i"
    from runPipeline_settles [OF ol len calls this]
    show "runPipeline ag sched inp \<noteq> None" .
  }
qed

theorem exhausted_section_returns_last_draft_witness:
  "writer strictAgents (demoPlan ''B'' [''A'']) (customInstructions demoInput) None
     = Inr (demoWritten ''B'' ''v1'')
   \<and> editor strictAgents (demoDraft ''B'' ''v1'') (customInstructions demoInput) None
       = Inr (demoReject, noUsage)
   \<and> \<not> approved demoReject
   \<and> writer strictAgents (demoPlan ''B'' [''A'']) (customInstructions demoInput)
        (Some \<lparr>previousContent = demoDraft ''B'' ''v1'', editorFeedback = demoReject\<rparr>)
       = Inr (demoWritten ''B'' ''v1+'')
   \<and> editor strictAgents (demoDraft ''B'' ''v1+'') (customInstructions demoInput)
        (Some \<lparr>priorContent = demoDraft ''B'' ''v1'', previousFeedback = demoReject,
               writerResponse = None\<rparr>)
       = Inr (demoReject, noUsage)
   \<and> writer strictAgents (demoPlan ''B'' [''A'']) (customInstructions demoInput)
        (Some \<lparr>previousContent = demoDraft ''B'' ''v1+'', editorFeedback = demoReject\<rparr>)
       = Inr (demoWritten ''B'' ''v1++'')
   \<and> editor strictAgents (demoDraft ''B'' ''v1++'') (customInstructions demoInput)
        (Some \<lparr>priorContent = demoDraft ''B'' ''v1+'', previousFeedback = demoReject,
               writerResponse = None\<rparr>)
       = Inr (demoReject, noUsage)
   \<and> outliner strictAgents (subject demoInput) (customInstructions demoInput)
       = Inr (demoOutline, noUsage)
   \<and> demoPlans ! 1 = demoPlan ''B'' [''A'']
   \<and> (\<exists>st us'. sectionLoop strictAgents (customInstructions demoInput) (demoPlan ''B'' [''A''])
          initialState emptyUsages = (Inr st, us')
        \<and> \<not> isApproved st \<and> iterations st = MAX_ITERATIONS
        \<and> currentContent st = Some (demoDraft ''B'' ''v1++''))
   \<and> fst (processSection strictAgents (customInstructions demoInput) (demoPlan ''B'' [''A''])
        emptyUsages) = Inr (demoDraft ''B'' ''v1++'')
   \<and> (\<exists>us3. runPipeline strictAgents fairSchedule demoInput
        = Some (finalReviewPhase strictAgents demoInput demoOutline demoPlans
            [demoDraft ''A'' ''v1++'', demoDraft ''B'' ''v1++''] us3))"
proof -
  let ?ci = "customInstructions demoInput"
  let ?p = "demoPlan ''B'' [''A'']"
  let ?cs = "[demoDraft ''A'' ''v1++'', demoDraft ''B'' ''v1++'']"
  have h1: "writer strictAgents ?p ?ci None = Inr (demoWritten ''B'' ''v1'')"
    by (simp add: strictAgents_def demoAgents_def demoWriter_def demoWritten_def demoPlan_def)
  have h2: "editor strictAgents (writtenContent (demoWritten ''B'' ''v1'')) ?ci None
      = Inr (demoReject, noUsage)"
    by (simp add: strictAgents_def demoAgents_def strictEditor_def demoReject_def)
  have h3: "\<not> approved demoReject" by (simp add: demoReject_def)
  have h4: "writer strictAgents ?p ?ci
      (Some \<lparr>previousContent = writtenContent (demoWritten ''B'' ''v1''),
             editorFeedback = demoReject\<rparr>) = Inr (demoWritten ''B'' ''v1+'')"
    by (simp add: strictAgents_def demoAgents_def demoWriter_def demoWritten_def demoPlan_def
        demoDraft_def)
  have h5: "editor strictAgents (writtenContent (demoWritten ''B'' ''v1+'')) ?ci
      (Some \<lparr>priorContent = writtenContent (demoWritten ''B'' ''v1''),
             previousFeedback = demoReject,
             writerResponse = responseToEditorFeedback (demoWritten ''B'' ''v1+'')\<rparr>)
      = Inr (demoReject, noUsage)"
    by (simp add: strictAgents_def demoAgents_def strictEditor_def demoReject_def)
  have h7: "writer strictAgents ?p ?ci
      (Some \<lparr>previousContent = writtenContent (demoWritten ''B'' ''v1+''),
             editorFeedback = demoReject\<rparr>) = Inr (demoWritten ''B'' ''v1++'')"
    by (simp add: strictAgents_def demoAgents_def demoWriter_def demoWritten_def demoPlan_def
        demoDraft_def)
  have h8: "editor strictAgents (writtenContent (demoWritten ''B'' ''v1++'')) ?ci
      (Some \<lparr>priorContent = writtenContent (demoWritten ''B'' ''v1+''),
             previousFeedback = demoReject,
             writerResponse = responseToEditorFeedback (demoWritten ''B'' ''v1++'')\<rparr>)
      = Inr (demoReject, noUsage)"
    by (simp add: strictAgents_def demoAgents_def strictEditor_def demoReject_def)
  note main = exhausted_section_returns_last_draft
    [where us = emptyUsages, OF h1 h2 h3 h4 h5 h3 h7 h8 h3]
  have ol: "outliner strictAgents (subject demoInput) ?ci = Inr (demoOutline, noUsage)"
    by (simp add: strictAgents_def demoAgents_def)
  have len: "length demoPlans = length (sections demoOutline)"
    by (simp add: demoPlans_def demoOutline_def)
  have calls: "\<forall>k < length (sections demoOutline). \<exists>u.
      contentStrategist strictAgents demoOutline (sections demoOutline ! k) ?ci
        (take k demoPlans) = Inr (demoPlans ! k, u)"
    by (simp add: demoPlans_def demoOutline_def strictAgents_def demoAgents_def
        demoStrategist_def demoPlan_def less_Suc_eq)
  have lencs: "length ?cs = length demoPlans" by (simp add: demoPlans_def)
  have sa: "fst (processSection strictAgents ?ci (demoPlan ''A'' []) emptyUsages)
      = Inr (demoDraft ''A'' ''v1++'')" by code_simp
  have sb: "fst (processSection strictAgents ?ci ?p emptyUsages)
      = Inr (demoDraft ''B'' ''v1++'')" by code_simp
  have secs: "\<forall>i < length demoPlans.
      fst (processSection strictAgents ?ci (demoPlans ! i) emptyUsages) = Inr (?cs ! i)"
    using sa sb by (simp add: demoPlans_def less_Suc_eq)
  have j: "1 < length demoPlans" "demoPlans ! 1 = ?p" by (simp_all add: demoPlans_def)
  have enough: "\<forall>i < length demoPlans. 6 \<le> count_list fairSchedule i"
    by (simp add: demoPlans_def fairSchedule_def less_Suc_eq)
  from main ol len calls lencs secs j
  have ends: "\<forall>sched r. runPipeline strictAgents sched demoInput = Some r
        \<longrightarrow> (\<exists>us3. r = finalReviewPhase strictAgents demoInput demoOutline demoPlans ?cs us3)"
    and settles: "\<forall>sched. (\<forall>i < length demoPlans. 6 \<le> count_list sched i)
        \<longrightarrow> runPipeline strictAgents sched demoInput \<noteq> None"
    by blast+
  from settles enough obtain r where r: "runPipeline strictAgents fairSchedule demoInput = Some r"
    by blast
  with ends have fin: "\<exists>us3. runPipeline strictAgents fairSchedule demoInput
      = Some (finalReviewPhase strictAgents demoInput demoOutline demoPlans ?cs us3)"
    by auto
  from main have loop: "\<exists>st us'. sectionLoop strictAgents ?ci ?p initialState emptyUsages
        = (Inr st, us')
      \<and> \<not> isApproved st \<and> iterations st = MAX_ITERATIONS
      \<and> currentContent st = Some (writtenContent (demoWritten ''B'' ''v1++''))"
    and last: "fst (processSection strictAgents ?ci ?p emptyUsages)
      = Inr (writtenContent (demoWritten ''B'' ''v1++''))"
    by blast+
  have wc: "writtenContent (demoWritten h body) = demoDraft h body" for h body
    by (simp add: demoWritten_def)
  have wr: "responseToEditorFeedback (demoWritten h body) = None" for h body
    by (simp add: demoWritten_def)
  from h1 h2 h3 h4 h5 h7 h8 ol j(2) loop last fin show ?thesis
    unfolding wc wr by blast
qed

text \<open>
  C5. A failing call ends the run with its error and without a document. (1) When the
  outliner's call fails, the run raises its error. (2) When the strategist answers the
  calls for the first sections and fails on the next one (in scenario C: answers for
  section 1 and fails on section 2), the run raises that error, the plans produced so
  far notwithstanding. (3) When the revision loop of some section fails, a run that ends
  ends with the error of a failing section, and the run ends under every schedule that
  lets each section's calls settle. (4) When the first three phases succeed and the
  editor in chief's call fails, a run that ends raises that error, and it ends under
  every such schedule. (5) Which error phase 3 raises: the one of the section rejected
  first in time. When no section has been rejected while the calls of \<open>pre\<close> settled,
  and the call that settles next, section \<open>j\<close>'s, rejects it with \<open>e\<close>, the run raises
  \<open>e\<close> at once: whatever the schedule \<open>post\<close> holds after it, the other sections still
  waiting or failing later with errors of their own; and \<open>e\<close> is the error the revision
  loop of section \<open>j\<close> fails with. The result of \<open>writeArticle\<close> is either an error or a
  markdown with its cost: there is no third form.
\<close>

theorem failing_call_aborts_run:
  "(outliner ag (subject inp) (customInstructions inp) = Inl e
      \<longrightarrow> writeArticle ag sched inp = Some (Inl e))
   \<and> (outliner ag (subject inp) (customInstructions inp) = Inr (outline, uo)
        \<and> length made < length (sections outline)
        \<and> (\<forall>k < length made. \<exists>u.
              contentStrategist ag outline (sections outline ! k) (customInstructions inp)
                (take k made) = Inr (made ! k, u))
        \<and> contentStrategist ag outline (sections outline ! length made)
              (customInstructions inp) made = Inl e
      \<longrightarrow> writeArticle ag sched inp = Some (Inl e))
   \<and> (outliner ag (subject inp) (customInstructions inp) = Inr (outline, uo)
        \<and> length plans = length (sections outline)
        \<and> (\<forall>k < length (sections outline). \<exists>u.
              contentStrategist ag outline (sections outline ! k) (customInstructions inp)
                (take k plans) = Inr (plans ! k, u))
        \<and> i < length plans
        \<and> fst (processSection ag (customInstructions inp) (plans ! i) emptyUsages) = Inl e
      \<longrightarrow> (\<forall>r. writeArticle ag sched inp = Some r \<longrightarrow>
             (\<exists>j e'. j < length plans
                \<and> fst (processSection ag (customInstructions inp) (plans ! j) emptyUsages)
                    = Inl e'
                \<and> r = Inl e'))
          \<and> ((\<forall>i < length plans. 6 \<le> count_list sched i)
                \<longrightarrow> writeArticle ag sched inp \<noteq> None))
   \<and> (outliner ag (subject inp) (customInstructions inp) = Inr (outline, uo)
        \<and> length plans = length (sections outline)
        \<and> (\<forall>k < length (sections outline). \<exists>u.
              contentStrategist ag outline (sections outline ! k) (customInstructions inp)
                (take k plans) = Inr (plans ! k, u))
        \<and> length cs = length plans
        \<and> (\<forall>i < length plans.
              fst (processSection ag (customInstructions inp) (plans ! i) emptyUsages)
                = Inr (cs ! i))
        \<and> editorInChief ag inp outline plans cs = Inl e
      \<longrightarrow> (\<forall>r. writeArticle ag sched inp = Some r \<longrightarrow> r = Inl e)
          \<and> ((\<forall>i < length plans. 6 \<le> count_list sched i)
                \<longrightarrow> writeArticle ag sched inp = Some (Inl e)))
   \<and> (outliner ag (subject inp) (customInstructions inp) = Inr (outline, uo)
        \<and> length plans = length (sections outline)
        \<and> (\<forall>k < length (sections outline). \<exists>u.
              contentStrategist ag outline (sections outline ! k) (customInstructions inp)
                (take k plans) = Inr (plans ! k, u))
        \<and> j < length plans
        \<and> (\<forall>i < length plans. \<not> rejected
              (advance ag (customInstructions inp) (count_list pre i) (startTask (plans ! i))))
        \<and> status (advance ag (customInstructions inp) (count_list pre j + 1)
              (startTask (plans ! j))) = Rejected e
      \<longrightarrow> writeArticle ag (pre @ j # post) inp = Some (Inl e)
          \<and> fst (processSection ag (customInstructions inp) (plans ! j) emptyUsages) = Inl e)"
proof (intro conjI impI allI)
  assume "outliner ag (subject inp) (customInstructions inp) = Inl e"
  then show "writeArticle ag sched inp = Some (Inl e)"
    by (simp add: writeArticle_def runPipeline_outliner_fails)
next
  assume h: "outliner ag (subject inp) (customInstructions inp) = Inr (outline, uo)
      \<and> length made < length (sections outline)
      \<and> (\<forall>k < length made. \<exists>u.
            contentStrategist ag outline (sections outline ! k) (customInstructions inp)
              (take k made) = Inr (made ! k, u))
      \<and> contentStrategist ag outline (sections outline ! length made)
            (customInstructions inp) made = Inl e"
  then have "fst (strategyLoop ag outline (customInstructions inp) (sections outline) []
      (emptyUsages\<lparr>OUTLINER := OUTLINER emptyUsages @ [uo]\<rparr>)) = Inl e"
    by (intro strategyLoop_fails [where new = made]) simp_all
  with h have "runPipeline ag sched inp = Some (Inl e)"
    by (intro runPipeline_strategy_fails) simp_all
  then show "writeArticle ag sched inp = Some (Inl e)"
    by (simp add: writeArticle_def)
next
  fix r
  assume h: "outliner ag (subject inp) (customInstructions inp) = Inr (outline, uo)
      \<and> length plans = length (sections outline)
      \<and> (\<forall>k < length (sections outline). \<exists>u.
            contentStrategist ag outline (sections outline ! k) (customInstructions inp)
              (take k plans) = Inr (plans ! k, u))
      \<and> i < length plans
      \<and> fst (processSection ag (customInstructions inp) (plans ! i) emptyUsages) = Inl e"
    and run: "writeArticle ag sched inp = Some r"
  from run obtain r' where r': "runPipeline ag sched inp = Some r'"
    by (auto simp: writeArticle_def split: option.splits)
  from h have ol: "outliner ag (subject inp) (customInstructions inp) = Inr (outline, uo)"
    and len: "length plans = length (sections outline)"
    and calls: "\<forall>k < length (sections outline). \<exists>u.
            contentStrategist ag outline (sections outline ! k) (customInstructions inp)
              (take k plans) = Inr (plans ! k, u)"
    and bad: "i < length plans"
      "fst (processSection ag (customInstructions inp) (plans ! i) emptyUsages) = Inl e"
    by simp_all
  from runPipeline_section_fails [OF ol len calls bad r']
  obtain j e' where j: "j < length plans"
      "fst (processSection ag (customInstructions inp) (plans ! j) emptyUsages) = Inl e'"
      "r' = Inl e'"
    by blast
  with run r' have "r = Inl e'" by (simp add: writeArticle_def)
  with j show "\<exists>j e'. j < length plans
      \<and> fst (processSection ag (customInstructions inp) (plans ! j) emptyUsages) = Inl e'
      \<and> r = Inl e'" by blast
next
  assume h: "outliner ag (subject inp) (customInstructions inp) = Inr (outline, uo)
      \<and> length plans = length (sections outline)
      \<and> (\<forall>k < length (sections outline). \<exists>u.
            contentStrategist ag outline (sections outline ! k) (customInstructions inp)
              (take k plans) = Inr (plans ! k, u))
      \<and> i < length plans
      \<and> fst (processSection ag (customInstructions inp) (plans ! i) emptyUsages) = Inl e"
    and enough: "\<forall>i < length plans. 6 \<le> count_list sched i"
  from h have ol: "outliner ag (subject inp) (customInstructions inp) = Inr (outline, uo)"
    and len: "length plans = length (sections outline)"
    and calls: "\<forall>k < length (sections outline). \<exists>u.
            contentStrategist ag outline (sections outline ! k) (customInstructions inp)
              (take k plans) = Inr (plans ! k, u)"
    by simp_all
  from runPipeline_settles [OF ol len calls enough]
  show "writeArticle ag sched inp \<noteq> None"
    by (auto simp: writeArticle_def split: option.splits sum.splits)
next
  fix r
  assume h: "outliner ag (subject inp) (customInstructions inp) = Inr (outline, uo)
      \<and> length plans = length (sections outline)
      \<and> (\<forall>k < length (sections outline). \<exists>u.
            contentStrategist ag outline (sections outline ! k) (customInstructions inp)
              (take k plans) = Inr (plans ! k, u))
      \<and> length cs = length plans
      \<and> (\<forall>i < length plans.
            fst (processSection ag (customInstructions inp) (plans ! i) emptyUsages)
              = Inr (cs ! i))
      \<and> editorInChief ag inp outline plans cs = Inl e"
    and run: "writeArticle ag sched inp = Some r"
  from run obtain r' where r': "runPipeline ag sched inp = Some r'"
    by (auto simp: writeArticle_def split: option.splits)
  from h have ol: "outliner ag (subject inp) (customInstructions inp) = Inr (outline, uo)"
    and len: "length plans = length (sections outline)"
    and calls: "\<forall>k < length (sections outline). \<exists>u.
            contentStrategist ag outline (sections outline ! k) (customInstructions inp)
              (take k plans) = Inr (plans ! k, u)"
    and lencs: "length cs = length plans"
    and secs: "\<forall>i < length plans.
            fst (processSection ag (customInstructions inp) (plans ! i) emptyUsages)
              = Inr (cs ! i)"
    and chief: "editorInChief ag inp outline plans cs = Inl e"
    by simp_all
  from runPipeline_reaches_review [OF ol len calls lencs secs r'] chief
  have "r' = Inl e" by (auto simp: finalReviewPhase_def)
  with run r' show "r = Inl e" by (simp add: writeArticle_def)
next
  assume h: "outliner ag (subject inp) (customInstructions inp) = Inr (outline, uo)
      \<and> length plans = length (sections outline)
      \<and> (\<forall>k < length (sections outline). \<exists>u.
            contentStrategist ag outline (sections outline ! k) (customInstructions inp)
              (take k plans) = Inr (plans ! k, u))
      \<and> length cs = length plans
      \<and> (\<forall>i < length plans.
            fst (processSection ag (customInstructions inp) (plans ! i) emptyUsages)
              = Inr (cs ! i))
      \<and> editorInChief ag inp outline plans cs = Inl e"
    and enough: "\<forall>i < length plans. 6 \<le> count_list sched i"
  from h have ol: "outliner ag (subject inp) (customInstructions inp) = Inr (outline, uo)"
    and len: "length plans = length (sections outline)"
    and calls: "\<forall>k < length (sections outline). \<exists>u.
            contentStrategist ag outline (sections outline ! k) (customInstructions inp)
              (take k plans) = Inr (plans ! k, u)"
    and lencs: "length cs = length plans"
    and secs: "\<forall>i < length plans.
            fst (processSection ag (customInstructions inp) (plans ! i) emptyUsages)
              = Inr (cs ! i)"
    and chief: "editorInChief ag inp outline plans cs = Inl e"
    by simp_all
  from runPipeline_settles [OF ol len calls enough]
  obtain r' where r': "runPipeline ag sched inp = Some r'" by blast
  from runPipeline_reaches_review [OF ol len calls lencs secs r'] chief
  have "r' = Inl e" by (auto simp: finalReviewPhase_def)
  with r' show "writeArticle ag sched inp = Some (Inl e)" by (simp add: writeArticle_def)
next
  assume h: "outliner ag (subject inp) (customInstructions inp) = Inr (outline, uo)
      \<and> length plans = length (sections outline)
      \<and> (\<forall>k < length (sections outline). \<exists>u.
            contentStrategist ag outline (sections outline ! k) (customInstructions inp)
              (take k plans) = Inr (plans ! k, u))
      \<and> j < length plans
      \<and> (\<forall>i < length plans. \<not> rejected
            (advance ag (customInstructions inp) (count_list pre i) (startTask (plans ! i))))
      \<and> status (advance ag (customInstructions inp) (count_list pre j + 1)
            (startTask (plans ! j))) = Rejected e"
  from h have ol: "outliner ag (subject inp) (customInstructions inp) = Inr (outline, uo)"
    and len: "length plans = length (sections outline)"
    and calls: "\<forall>k < length (sections outline). \<exists>u.
            contentStrategist ag outline (sections outline ! k) (customInstructions inp)
              (take k plans) = Inr (plans ! k, u)"
    and j: "j < length plans"
    and before: "\<forall>i < length plans. \<not> rejected
            (advance ag (customInstructions inp) (count_list pre i) (startTask (plans ! i)))"
    and now: "status (advance ag (customInstructions inp) (count_list pre j + 1)
            (startTask (plans ! j))) = Rejected e"
    by simp_all
  from ol len calls j before now
  have "runPipeline ag (pre @ j # post) inp = Some (Inl e)"
    by (rule runPipeline_first_rejection)
  then show "writeArticle ag (pre @ j # post) inp = Some (Inl e)"
    by (simp add: writeArticle_def)
next
  assume h: "outliner ag (subject inp) (customInstructions inp) = Inr (outline, uo)
      \<and> length plans = length (sections outline)
      \<and> (\<forall>k < length (sections outline). \<exists>u.
            contentStrategist ag outline (sections outline ! k) (customInstructions inp)
              (take k plans) = Inr (plans ! k, u))
      \<and> j < length plans
      \<and> (\<forall>i < length plans. \<not> rejected
            (advance ag (customInstructions inp) (count_list pre i) (startTask (plans ! i))))
      \<and> status (advance ag (customInstructions inp) (count_list pre j + 1)
            (startTask (plans ! j))) = Rejected e"
  then have "status (advance ag (customInstructions inp) (count_list pre j + 1)
      (startTask (plans ! j))) = Rejected e" by simp
  then show "fst (processSection ag (customInstructions inp) (plans ! j) emptyUsages) = Inl e"
    by (rule rejected_task_fails)
qed

theorem failing_call_aborts_run_witness:
  "outliner (demoAgents\<lparr>outliner := (\<lambda>subj ci. Inl (AgentError ''down''))\<rparr>)
       (subject demoInput) (customInstructions demoInput) = Inl (AgentError ''down'')
   \<and> writeArticle (demoAgents\<lparr>outliner := (\<lambda>subj ci. Inl (AgentError ''down''))\<rparr>)
       fairSchedule demoInput = Some (Inl (AgentError ''down''))
   \<and> contentStrategist (demoAgents\<lparr>contentStrategist := failingStrategist\<rparr>) demoOutline
       (sections demoOutline ! 0) (customInstructions demoInput) []
       = Inr (demoPlan ''A'' [], noUsage)
   \<and> contentStrategist (demoAgents\<lparr>contentStrategist := failingStrategist\<rparr>) demoOutline
       (sections demoOutline ! 1) (customInstructions demoInput) [demoPlan ''A'' []]
       = Inl (AgentError ''rate limit'')
   \<and> writeArticle (demoAgents\<lparr>contentStrategist := failingStrategist\<rparr>)
       fairSchedule demoInput = Some (Inl (AgentError ''rate limit''))
   \<and> fst (processSection (demoAgents\<lparr>writer := failingWriter\<rparr>) (customInstructions demoInput)
        (demoPlans ! 1) emptyUsages) = Inl (AgentError ''timeout'')
   \<and> writeArticle (demoAgents\<lparr>writer := failingWriter\<rparr>) fairSchedule demoInput
       = Some (Inl (AgentError ''timeout''))
   \<and> editorInChief
        (demoAgents\<lparr>editorInChief := (\<lambda>inp outline plans secs. Inl (AgentError ''chief''))\<rparr>)
        demoInput demoOutline demoPlans [demoDraft ''A'' ''v1'', demoDraft ''B'' ''v1++'']
       = Inl (AgentError ''chief'')
   \<and> writeArticle
        (demoAgents\<lparr>editorInChief := (\<lambda>inp outline plans secs. Inl (AgentError ''chief''))\<rparr>)
        fairSchedule demoInput = Some (Inl (AgentError ''chief''))
   \<and> fst (processSection brokenAgents (customInstructions demoInput) (demoPlans ! 0)
        emptyUsages) = Inl (AgentError ''errA'')
   \<and> fst (processSection brokenAgents (customInstructions demoInput) (demoPlans ! 1)
        emptyUsages) = Inl (AgentError ''errB'')
   \<and> writeArticle brokenAgents ([1] @ 1 # [0]) demoInput = Some (Inl (AgentError ''errB''))
   \<and> writeArticle brokenAgents ([] @ 0 # [1, 1]) demoInput
       = Some (Inl (AgentError ''errA''))"
proof -
  let ?ci = "customInstructions demoInput"
  let ?ag1 = "demoAgents\<lparr>outliner := (\<lambda>subj ci. Inl (AgentError ''down''))\<rparr>"
  let ?ag2 = "demoAgents\<lparr>contentStrategist := failingStrategist\<rparr>"
  let ?ag3 = "demoAgents\<lparr>writer := failingWriter\<rparr>"
  let ?ag4 = "demoAgents\<lparr>editorInChief := (\<lambda>inp outline plans secs. Inl (AgentError ''chief''))\<rparr>"
  let ?cs = "[demoDraft ''A'' ''v1'', demoDraft ''B'' ''v1++'']"
  have two: "length (sections demoOutline) = 2" by (simp add: demoOutline_def)
  have lenp: "length demoPlans = 2" by (simp add: demoPlans_def)
  \<comment> \<open>(1) the outliner fails\<close>
  have o1: "outliner ?ag1 (subject demoInput) ?ci = Inl (AgentError ''down'')" by simp
  from failing_call_aborts_run [where ag = ?ag1 and inp = demoInput and sched = fairSchedule
      and e = "AgentError ''down''"] o1
  have w1: "writeArticle ?ag1 fairSchedule demoInput = Some (Inl (AgentError ''down''))"
    by blast
  \<comment> \<open>(2) the strategist fails on the second section\<close>
  have o2: "outliner ?ag2 (subject demoInput) ?ci = Inr (demoOutline, noUsage)"
    by (simp add: demoAgents_def)
  have s0: "contentStrategist ?ag2 demoOutline (sections demoOutline ! 0) ?ci []
      = Inr (demoPlan ''A'' [], noUsage)"
    by (simp add: failingStrategist_def demoStrategist_def demoOutline_def)
  have s1: "contentStrategist ?ag2 demoOutline (sections demoOutline ! 1) ?ci [demoPlan ''A'' []]
      = Inl (AgentError ''rate limit'')"
    by (simp add: failingStrategist_def demoOutline_def)
  have d2: "length [demoPlan ''A'' []] < length (sections demoOutline)" by (simp add: two)
  have c2: "\<forall>k < length [demoPlan ''A'' []]. \<exists>u.
      contentStrategist ?ag2 demoOutline (sections demoOutline ! k) ?ci
        (take k [demoPlan ''A'' []]) = Inr ([demoPlan ''A'' []] ! k, u)"
    using s0 by simp
  have f2: "contentStrategist ?ag2 demoOutline (sections demoOutline ! length [demoPlan ''A'' []])
      ?ci [demoPlan ''A'' []] = Inl (AgentError ''rate limit'')"
    using s1 by simp
  from failing_call_aborts_run [where ag = ?ag2 and inp = demoInput and sched = fairSchedule
      and e = "AgentError ''rate limit''" and outline = demoOutline and uo = noUsage
      and made = "[demoPlan ''A'' []]"] o2 d2 c2 f2
  have w2: "writeArticle ?ag2 fairSchedule demoInput = Some (Inl (AgentError ''rate limit''))"
    by blast
  \<comment> \<open>(3) the writer fails on the second draft of section B\<close>
  have o3: "outliner ?ag3 (subject demoInput) ?ci = Inr (demoOutline, noUsage)"
    by (simp add: demoAgents_def)
  have len3: "length demoPlans = length (sections demoOutline)" by (simp add: two lenp)
  have c3: "\<forall>k < length (sections demoOutline). \<exists>u.
      contentStrategist ?ag3 demoOutline (sections demoOutline ! k) ?ci (take k demoPlans)
        = Inr (demoPlans ! k, u)"
    by (simp add: demoPlans_def demoOutline_def demoAgents_def demoStrategist_def demoPlan_def
        less_Suc_eq)
  have i3: "1 < length demoPlans" by (simp add: lenp)
  have a3: "fst (processSection ?ag3 ?ci (demoPlans ! 0) emptyUsages)
      = Inr (demoDraft ''A'' ''v1'')" by code_simp
  have b3: "fst (processSection ?ag3 ?ci (demoPlans ! 1) emptyUsages)
      = Inl (AgentError ''timeout'')" by code_simp
  have enough: "\<forall>i < length demoPlans. 6 \<le> count_list fairSchedule i"
    by (simp add: demoPlans_def fairSchedule_def less_Suc_eq)
  note main3 = failing_call_aborts_run [where ag = ?ag3 and inp = demoInput
      and sched = fairSchedule and e = "AgentError ''timeout''" and outline = demoOutline
      and uo = noUsage and plans = demoPlans and i = 1]
  from main3 o3 len3 c3 i3 b3 enough
  have "writeArticle ?ag3 fairSchedule demoInput \<noteq> None" by blast
  then obtain r3 where r3: "writeArticle ?ag3 fairSchedule demoInput = Some r3" by blast
  from main3 o3 len3 c3 i3 b3 r3
  obtain j e' where j: "j < length demoPlans"
      "fst (processSection ?ag3 ?ci (demoPlans ! j) emptyUsages) = Inl e'" "r3 = Inl e'"
    by blast
  from j(1) lenp have "j = 0 \<or> j = 1" by auto
  with j(2) a3 b3 have "e' = AgentError ''timeout''" by auto
  with r3 j(3)
  have w3: "writeArticle ?ag3 fairSchedule demoInput = Some (Inl (AgentError ''timeout''))"
    by simp
  \<comment> \<open>(4) the editor in chief fails\<close>
  have o4: "outliner ?ag4 (subject demoInput) ?ci = Inr (demoOutline, noUsage)"
    by (simp add: demoAgents_def)
  have c4: "\<forall>k < length (sections demoOutline). \<exists>u.
      contentStrategist ?ag4 demoOutline (sections demoOutline ! k) ?ci (take k demoPlans)
        = Inr (demoPlans ! k, u)"
    by (simp add: demoPlans_def demoOutline_def demoAgents_def demoStrategist_def demoPlan_def
        less_Suc_eq)
  have lencs: "length ?cs = length demoPlans" by (simp add: lenp)
  have a4: "fst (processSection ?ag4 ?ci (demoPlans ! 0) emptyUsages)
      = Inr (demoDraft ''A'' ''v1'')" by code_simp
  have b4: "fst (processSection ?ag4 ?ci (demoPlans ! 1) emptyUsages)
      = Inr (demoDraft ''B'' ''v1++'')" by code_simp
  have secs4: "\<forall>i < length demoPlans.
      fst (processSection ?ag4 ?ci (demoPlans ! i) emptyUsages) = Inr (?cs ! i)"
    using a4 b4 by (simp add: lenp less_Suc_eq numeral_2_eq_2)
  have ch4: "editorInChief ?ag4 demoInput demoOutline demoPlans ?cs = Inl (AgentError ''chief'')"
    by simp
  from failing_call_aborts_run [where ag = ?ag4 and inp = demoInput and sched = fairSchedule
      and e = "AgentError ''chief''" and outline = demoOutline and uo = noUsage
      and plans = demoPlans and cs = ?cs] o4 len3 c4 lencs secs4 ch4 enough
  have w4: "writeArticle ?ag4 fairSchedule demoInput = Some (Inl (AgentError ''chief''))"
    by blast
  \<comment> \<open>(5) both sections fail: the schedule decides which error is raised\<close>
  have o5: "outliner brokenAgents (subject demoInput) ?ci = Inr (demoOutline, noUsage)"
    by (simp add: brokenAgents_def demoAgents_def)
  have c5: "\<forall>k < length (sections demoOutline). \<exists>u.
      contentStrategist brokenAgents demoOutline (sections demoOutline ! k) ?ci
        (take k demoPlans) = Inr (demoPlans ! k, u)"
    by (simp add: brokenAgents_def demoPlans_def demoOutline_def demoAgents_def
        demoStrategist_def demoPlan_def less_Suc_eq)
  have i5: "0 < length demoPlans" by (simp add: lenp)
  have t0: "\<not> rejected (advance brokenAgents ?ci 0 (startTask (demoPlans ! 0)))"
    by code_simp
  have t1: "\<not> rejected (advance brokenAgents ?ci 0 (startTask (demoPlans ! 1)))"
    by code_simp
  have t2: "\<not> rejected (advance brokenAgents ?ci 1 (startTask (demoPlans ! 1)))"
    by code_simp
  have rA: "status (advance brokenAgents ?ci 1 (startTask (demoPlans ! 0)))
      = Rejected (AgentError ''errA'')" by code_simp
  have rB: "status (advance brokenAgents ?ci 2 (startTask (demoPlans ! 1)))
      = Rejected (AgentError ''errB'')" by code_simp
  have beforeB: "\<forall>i < length demoPlans. \<not> rejected
      (advance brokenAgents ?ci (count_list [1] i) (startTask (demoPlans ! i)))"
    using t0 t2 by (simp add: lenp less_Suc_eq numeral_2_eq_2)
  have nowB: "status (advance brokenAgents ?ci (count_list [1] 1 + 1)
      (startTask (demoPlans ! 1))) = Rejected (AgentError ''errB'')"
    using rB by (simp add: numeral_2_eq_2)
  from failing_call_aborts_run [where ag = brokenAgents and inp = demoInput
      and e = "AgentError ''errB''" and outline = demoOutline and uo = noUsage
      and plans = demoPlans and j = 1 and pre = "[1]" and post = "[0]"]
    o5 len3 c5 i3 beforeB nowB
  have w5b: "writeArticle brokenAgents ([1] @ 1 # [0]) demoInput
        = Some (Inl (AgentError ''errB''))"
    and p5b: "fst (processSection brokenAgents ?ci (demoPlans ! 1) emptyUsages)
        = Inl (AgentError ''errB'')"
    by blast+
  have beforeA: "\<forall>i < length demoPlans. \<not> rejected
      (advance brokenAgents ?ci (count_list [] i) (startTask (demoPlans ! i)))"
    using t0 t1 by (simp add: lenp less_Suc_eq numeral_2_eq_2)
  have nowA: "status (advance brokenAgents ?ci (count_list [] 0 + 1)
      (startTask (demoPlans ! 0))) = Rejected (AgentError ''errA'')"
    using rA by simp
  from failing_call_aborts_run [where ag = brokenAgents and inp = demoInput
      and e = "AgentError ''errA''" and outline = demoOutline and uo = noUsage
      and plans = demoPlans and j = 0 and pre = "[]" and post = "[1, 1]"]
    o5 len3 c5 i5 beforeA nowA
  have w5a: "writeArticle brokenAgents ([] @ 0 # [1, 1]) demoInput
        = Some (Inl (AgentError ''errA''))"
    and p5a: "fst (processSection brokenAgents ?ci (demoPlans ! 0) emptyUsages)
        = Inl (AgentError ''errA'')"
    by blast+
  from o1 w1 s0 s1 w2 b3 w3 ch4 w4 p5a p5b w5b w5a show ?thesis by blast
qed

text \<open>
  C6. When the strategy loop completes, it has produced one plan per section, and the
  plan of section \<open>k\<close> is the strategist's answer to the call whose
  \<open>previousStrategies\<close> are the first \<open>k\<close> plans, in order: the plans of the sections
  before \<open>k\<close> and no others.
\<close>

theorem strategy_is_left_fold:
  assumes "strategyLoop ag outline ci secs [] us = (Inr plans, us')"
  shows "length plans = length secs
       \<and> (\<forall>k < length secs. \<exists>u.
             contentStrategist ag outline (secs ! k) ci (take k plans) = Inr (plans ! k, u))"
  using strategyLoop_calls [OF assms] by simp

theorem strategy_is_left_fold_witness:
  "fst (strategyLoop demoAgents demoOutline None (sections demoOutline) [] emptyUsages)
     = Inr [demoPlan ''A'' [], demoPlan ''B'' [''A'']]
   \<and> length [demoPlan ''A'' [], demoPlan ''B'' [''A'']] = length (sections demoOutline)
   \<and> (\<exists>u. contentStrategist demoAgents demoOutline (sections demoOutline ! 0) None
              (take 0 [demoPlan ''A'' [], demoPlan ''B'' [''A'']])
            = Inr ([demoPlan ''A'' [], demoPlan ''B'' [''A'']] ! 0, u))
   \<and> (\<exists>u. contentStrategist demoAgents demoOutline (sections demoOutline ! 1) None
              (take 1 [demoPlan ''A'' [], demoPlan ''B'' [''A'']])
            = Inr ([demoPlan ''A'' [], demoPlan ''B'' [''A'']] ! 1, u))"
proof -
  let ?plans = "[demoPlan ''A'' [], demoPlan ''B'' [''A'']]"
  obtain us' where run:
    "strategyLoop demoAgents demoOutline None (sections demoOutline) [] emptyUsages
       = (Inr ?plans, us')"
    by (simp add: demoOutline_def demoAgents_def demoStrategist_def demoPlan_def)
  have two: "length (sections demoOutline) = 2" by (simp add: demoOutline_def)
  from strategy_is_left_fold [OF run] two run show ?thesis
    by (auto simp: less_Suc_eq numeral_2_eq_2 simp del: take_Suc_Cons)
qed

text \<open>
  C7. For every ledger, the agent total is the sum, over every record of every role, of
  the record's own usage priced at the role's model (o1 for the outliner and the editor
  in chief, gpt-4o for the others: prompt tokens times the input rate plus completion
  tokens times the output rate, per million tokens); the research total is the sum of
  every nested researcher usage priced at the gpt-4o-mini rates; the cost returned is
  the agent total plus the research total. A record's own usage occurs only in the first
  sum and its nested usages only in the second, each once.
\<close>

theorem usage_totals_count_each_usage_once:
  "agentCosts (total (calculateUsage U)) =
       sum_list (map (tokenCost o1) (selfUsages (OUTLINER U)))
     + sum_list (map (tokenCost gpt_4o) (selfUsages (CONTENT_STRATEGIST U)))
     + sum_list (map (tokenCost gpt_4o) (selfUsages (WRITER U)))
     + sum_list (map (tokenCost gpt_4o) (selfUsages (EDITOR U)))
     + sum_list (map (tokenCost o1) (selfUsages (EDITOR_IN_CHIEF U)))
   \<and> researchCosts (total (calculateUsage U)) =
       sum_list (map (tokenCost gpt_4o_mini) (nestedUsages (OUTLINER U)))
     + sum_list (map (tokenCost gpt_4o_mini) (nestedUsages (CONTENT_STRATEGIST U)))
     + sum_list (map (tokenCost gpt_4o_mini) (nestedUsages (WRITER U)))
     + sum_list (map (tokenCost gpt_4o_mini) (nestedUsages (EDITOR U)))
     + sum_list (map (tokenCost gpt_4o_mini) (nestedUsages (EDITOR_IN_CHIEF U)))
   \<and> totalCost (calculateUsage U) =
       agentCosts (total (calculateUsage U)) + researchCosts (total (calculateUsage U))"
proof (intro conjI)
  show "agentCosts (total (calculateUsage U)) =
       sum_list (map (tokenCost o1) (selfUsages (OUTLINER U)))
     + sum_list (map (tokenCost gpt_4o) (selfUsages (CONTENT_STRATEGIST U)))
     + sum_list (map (tokenCost gpt_4o) (selfUsages (WRITER U)))
     + sum_list (map (tokenCost gpt_4o) (selfUsages (EDITOR U)))
     + sum_list (map (tokenCost o1) (selfUsages (EDITOR_IN_CHIEF U)))"
    by (simp add: calculateUsage_def Let_def entries_def roleEntries_def
        addRole_self addRole_other modelOfRole_def)
  show "researchCosts (total (calculateUsage U)) =
       sum_list (map (tokenCost gpt_4o_mini) (nestedUsages (OUTLINER U)))
     + sum_list (map (tokenCost gpt_4o_mini) (nestedUsages (CONTENT_STRATEGIST U)))
     + sum_list (map (tokenCost gpt_4o_mini) (nestedUsages (WRITER U)))
     + sum_list (map (tokenCost gpt_4o_mini) (nestedUsages (EDITOR U)))
     + sum_list (map (tokenCost gpt_4o_mini) (nestedUsages (EDITOR_IN_CHIEF U)))"
    by (simp add: calculateUsage_def Let_def entries_def roleEntries_def
        addRole_research addRole_other)
  show "totalCost (calculateUsage U) =
       agentCosts (total (calculateUsage U)) + researchCosts (total (calculateUsage U))"
    by (simp add: totalCost_def)
qed

text \<open>
  C8. An edit whose heading matches a section and whose original text does not occur in
  the section's body as it stands when the edit is reached (after the edits before it)
  changes nothing: the section is rendered with the body the other edits alone give it,
  which for a single proposed edit is the section's own content, and a document is
  returned.
\<close>

theorem edit_miss_is_noop:
  assumes "sectionHeading e = heading sec"
    and "\<not> sublist (originalText e) (editedContent es1 sec)"
  shows "applyEditsAndGenerateMarkdown ttl (pre @ sec # post) (es1 @ e # es2) gf =
     ''# '' @ ttl @ ''\<newline>\<newline>''
       @ concat (map (sectionBlock (es1 @ e # es2)) pre)
       @ ''## '' @ heading sec @ ''\<newline>\<newline>''
       @ editedContent (es1 @ es2) sec @ ''\<newline>\<newline>''
       @ concat (map (sectionBlock (es1 @ e # es2)) post)
       @ notesBlock gf @ referencesBlock (pre @ sec # post)"
  using assms(2)
  by (simp add: markdown_shape sectionBlock_def editedContent_skip_miss)

theorem edit_miss_is_noop_witness:
  "sectionHeading \<lparr>sectionHeading = ''Intro'', originalText = ''foo'', feedback = ''tighten'',
        newText = ''bar'', priority = HIGH\<rparr>
     = heading \<lparr>heading = ''Intro'', content = ''An opening line.'', references = None\<rparr>
   \<and> \<not> sublist
        (originalText \<lparr>sectionHeading = ''Intro'', originalText = ''foo'', feedback = ''tighten'',
           newText = ''bar'', priority = HIGH\<rparr>)
        (editedContent [] \<lparr>heading = ''Intro'', content = ''An opening line.'', references = None\<rparr>)
   \<and> applyEditsAndGenerateMarkdown ''T''
        [\<lparr>heading = ''Intro'', content = ''An opening line.'', references = None\<rparr>]
        [\<lparr>sectionHeading = ''Intro'', originalText = ''foo'', feedback = ''tighten'',
           newText = ''bar'', priority = HIGH\<rparr>] []
     = ''# T\<newline>\<newline>## Intro\<newline>\<newline>An opening line.\<newline>\<newline>''"
proof -
  let ?e = "\<lparr>sectionHeading = ''Intro'', originalText = ''foo'', feedback = ''tighten'',
        newText = ''bar'', priority = HIGH\<rparr>"
  let ?s = "\<lparr>heading = ''Intro'', content = ''An opening line.'', references = None\<rparr>"
  have h1: "sectionHeading ?e = heading ?s" by simp
  have h2: "\<not> sublist (originalText ?e) (editedContent [] ?s)"
    by (simp add: editedContent_def indexOf_None_iff [symmetric])
  from edit_miss_is_noop [OF h1 h2, of "''T''" "[]" "[]" "[]" "[]"] h1 h2
  show ?thesis
    by (simp add: editedContent_def notesBlock_def referencesBlock_def allReferences_def)
qed

text \<open>
  C9. The replacement text is not always inserted character for character:
  \<open>String.prototype.replace\<close> reads dollar patterns in it. With the body \<open>Price: X\<close>,
  the original text \<open>X\<close> and the new text \<open>$$5\<close> the rendered body is \<open>Price: $5\<close>,
  where the literal replacement is \<open>Price: $$5\<close>.
\<close>

theorem replace_expands_dollar_patterns:
  "applyEditsAndGenerateMarkdown ''T''
     [\<lparr>heading = ''Intro'', content = ''Price: X'', references = None\<rparr>]
     [\<lparr>sectionHeading = ''Intro'', originalText = ''X'', feedback = ''be exact'',
        newText = ''$$5'', priority = HIGH\<rparr>] []
   = ''# T\<newline>\<newline>## Intro\<newline>\<newline>Price: $5\<newline>\<newline>''"
  by (simp add: applyEditsAndGenerateMarkdown_def appendSection_def editedContent_def
      applyEdit_def replace_js_def allReferences_def)

text \<open>
  C10. The rendered document is not the title and the section blocks alone for every
  input: with a note among the global feedback, or a reference in a section, a block
  \<open>## Editorial Notes\<close> or \<open>## References\<close> follows them (the last theorem below is
  an input with one note). What holds: for every title, list of sections, list of edits
  and list of notes the document is the line \<open># title\<close>, then for each section in order
  the line \<open>## heading\<close> followed by its edited body, then the notes block and the
  references block, each empty when there is nothing to list; so it is the title and the
  section blocks exactly when there are no notes and no references, and every section is
  rendered at heading level 2. The nesting fields have no effect: the document of a run
  is the rendering of the final review and of the generated sections; and when the
  outliner's outline is replaced by one whose sections have any other \<open>level\<close> and
  \<open>subSections\<close>, the agents answering as before, \<open>writeArticle\<close> ends the same way, with
  the same document and the same cost. The orchestration and the renderer never read the
  two fields; only an agent's answer can depend on them.
\<close>

theorem renderer_flattens_outline:
  "applyEditsAndGenerateMarkdown ttl secs edits fbs =
     ''# '' @ ttl @ ''\<newline>\<newline>''
       @ concat (map (\<lambda>s. ''## '' @ heading s @ ''\<newline>\<newline>''
                          @ editedContent edits s @ ''\<newline>\<newline>'') secs)
       @ notesBlock fbs @ referencesBlock secs
   \<and> (fbs = [] \<and> allReferences secs = [] \<longrightarrow>
        applyEditsAndGenerateMarkdown ttl secs edits fbs = titleAndSections ttl secs edits)
   \<and> (runPipeline ag sched inp = Some (Inr d) \<longrightarrow>
        finalMarkdown d =
          applyEditsAndGenerateMarkdown (finalArticleTitle (finalReview d))
            (generatedSections d) (proposedEdits (finalReview d))
            (globalFeedback (finalReview d)))
   \<and> (outliner ag (subject inp) (customInstructions inp) = Inr (outline, uo)
        \<and> outliner ag' (subject inp) (customInstructions inp)
            = Inr (renest lv subs outline, uo)
        \<and> (\<forall>sec \<in> set (sections outline). \<forall>prev.
              contentStrategist ag' (renest lv subs outline) (renestSection lv subs sec)
                (customInstructions inp) prev
              = contentStrategist ag outline sec (customInstructions inp) prev)
        \<and> writer ag' = writer ag
        \<and> editor ag' = editor ag
        \<and> (\<forall>plans cs. editorInChief ag' inp (renest lv subs outline) plans cs
              = editorInChief ag inp outline plans cs)
      \<longrightarrow> writeArticle ag' sched inp = writeArticle ag sched inp)"
proof (intro conjI impI)
  have "sectionBlock edits = (\<lambda>s. ''## '' @ heading s @ ''\<newline>\<newline>''
      @ editedContent edits s @ ''\<newline>\<newline>'')"
    by (rule ext) (simp add: sectionBlock_def)
  with markdown_shape [where ttl = ttl and secs = secs and es = edits and gf = fbs]
  show "applyEditsAndGenerateMarkdown ttl secs edits fbs =
     ''# '' @ ttl @ ''\<newline>\<newline>''
       @ concat (map (\<lambda>s. ''## '' @ heading s @ ''\<newline>\<newline>''
                          @ editedContent edits s @ ''\<newline>\<newline>'') secs)
       @ notesBlock fbs @ referencesBlock secs"
    by simp
next
  assume "fbs = [] \<and> allReferences secs = []"
  with markdown_shape [where ttl = ttl and secs = secs and es = edits and gf = fbs]
  show "applyEditsAndGenerateMarkdown ttl secs edits fbs = titleAndSections ttl secs edits"
    by (simp add: titleAndSections_def notesBlock_def referencesBlock_def)
next
  assume run: "runPipeline ag sched inp = Some (Inr d)"
  show "finalMarkdown d =
      applyEditsAndGenerateMarkdown (finalArticleTitle (finalReview d))
        (generatedSections d) (proposedEdits (finalReview d))
        (globalFeedback (finalReview d))"
  proof (cases "outliner ag (subject inp) (customInstructions inp)")
    case (Inl e)
    with run show ?thesis by (simp add: runPipeline_def)
  next
    case (Inr res)
    obtain outline uo where res: "res = (outline, uo)" by (cases res)
    obtain r2 us2 where st: "strategyLoop ag outline (customInstructions inp)
        (sections outline) [] (emptyUsages\<lparr>OUTLINER := OUTLINER emptyUsages @ [uo]\<rparr>)
        = (r2, us2)" by force
    show ?thesis
    proof (cases r2)
      case (Inl e)
      with run Inr res st show ?thesis by (simp add: runPipeline_def)
    next
      case plans: (Inr plans)
      obtain r3 us3 where fo: "fanOut ag (customInstructions inp) sched plans us2 = (r3, us3)"
        by force
      from run Inr res st plans fo
      obtain cs where "finalReviewPhase ag inp outline plans cs us3 = Inr d"
        by (auto simp: runPipeline_def split: option.splits sum.splits)
      then show ?thesis
        by (auto simp: finalReviewPhase_def Let_def split: sum.splits)
    qed
  qed
next
  assume h: "outliner ag (subject inp) (customInstructions inp) = Inr (outline, uo)
      \<and> outliner ag' (subject inp) (customInstructions inp)
          = Inr (renest lv subs outline, uo)
      \<and> (\<forall>sec \<in> set (sections outline). \<forall>prev.
            contentStrategist ag' (renest lv subs outline) (renestSection lv subs sec)
              (customInstructions inp) prev
            = contentStrategist ag outline sec (customInstructions inp) prev)
      \<and> writer ag' = writer ag
      \<and> editor ag' = editor ag
      \<and> (\<forall>plans cs. editorInChief ag' inp (renest lv subs outline) plans cs
            = editorInChief ag inp outline plans cs)"
  from h have ol: "outliner ag (subject inp) (customInstructions inp) = Inr (outline, uo)"
    and ol': "outliner ag' (subject inp) (customInstructions inp)
        = Inr (renest lv subs outline, uo)"
    and strat: "\<forall>sec \<in> set (sections outline). \<forall>prev.
        contentStrategist ag' (renest lv subs outline) (renestSection lv subs sec)
          (customInstructions inp) prev
        = contentStrategist ag outline sec (customInstructions inp) prev"
    and wr: "writer ag' = writer ag"
    and ed: "editor ag' = editor ag"
    and chief: "\<forall>plans cs. editorInChief ag' inp (renest lv subs outline) plans cs
        = editorInChief ag inp outline plans cs"
    by simp_all
  from ol ol' strat wr ed chief
  have "runPipeline ag' sched inp
      = map_option (map_sum id (\<lambda>d. d\<lparr>articleOutline := renest lv subs outline\<rparr>))
          (runPipeline ag sched inp)"
    by (rule runPipeline_renest)
  then show "writeArticle ag' sched inp = writeArticle ag sched inp"
    by (simp add: writeArticle_def split: option.splits sum.splits)
qed

theorem renderer_flattens_outline_witness:
  "(\<exists>d. runPipeline demoAgents fairSchedule demoInput = Some (Inr d)
      \<and> map level (sections (articleOutline d)) = [1, 2]
      \<and> globalFeedback (finalReview d) = []
      \<and> allReferences (generatedSections d) = []
      \<and> finalMarkdown d
          = titleAndSections (finalArticleTitle (finalReview d)) (generatedSections d)
              (proposedEdits (finalReview d))
      \<and> finalMarkdown d
          = ''# T\<newline>\<newline>## A\<newline>\<newline>v1\<newline>\<newline>## B\<newline>\<newline>v1++\<newline>\<newline>'')
   \<and> outliner demoAgents (subject demoInput) (customInstructions demoInput)
       = Inr (demoOutline, noUsage)
   \<and> outliner deepAgents (subject demoInput) (customInstructions demoInput)
       = Inr (deepOutline, noUsage)
   \<and> map level (sections deepOutline) = [3, 3]
   \<and> map subSections (sections deepOutline)
       = [Some [\<lparr>subHeading = ''A.1'', subLevel = 4\<rparr>],
          Some [\<lparr>subHeading = ''B.1'', subLevel = 4\<rparr>]]
   \<and> map subSections (sections demoOutline) = [None, None]
   \<and> writeArticle deepAgents fairSchedule demoInput
       = writeArticle demoAgents fairSchedule demoInput
   \<and> (\<exists>cost. writeArticle deepAgents fairSchedule demoInput
         = Some (Inr (''# T\<newline>\<newline>## A\<newline>\<newline>v1\<newline>\<newline>## B\<newline>\<newline>v1++\<newline>\<newline>'', cost)))"
proof -
  let ?lv = "\<lambda>sec :: OutlineSection. 3 :: int"
  let ?subs = "\<lambda>sec :: OutlineSection.
      Some [\<lparr>subHeading = secHeading sec @ ''.1'', subLevel = 4\<rparr>]"
  from demo_run obtain us3 where run: "runPipeline demoAgents fairSchedule demoInput
     = Some (finalReviewPhase demoAgents demoInput demoOutline demoPlans
         [demoDraft ''A'' ''v1'', demoDraft ''B'' ''v1++''] us3)" by blast
  have "\<exists>d. finalReviewPhase demoAgents demoInput demoOutline demoPlans
         [demoDraft ''A'' ''v1'', demoDraft ''B'' ''v1++''] us3 = Inr d
      \<and> articleOutline d = demoOutline \<and> finalReview d = demoReview
      \<and> generatedSections d = [demoDraft ''A'' ''v1'', demoDraft ''B'' ''v1++'']"
    by (simp add: finalReviewPhase_def demoAgents_def Let_def)
  with run obtain d where d: "runPipeline demoAgents fairSchedule demoInput = Some (Inr d)"
      "articleOutline d = demoOutline" "finalReview d = demoReview"
      "generatedSections d = [demoDraft ''A'' ''v1'', demoDraft ''B'' ''v1++'']"
    by auto
  note main = renderer_flattens_outline [where ag = demoAgents and sched = fairSchedule
      and inp = demoInput and d = d and ttl = "finalArticleTitle (finalReview d)"
      and secs = "generatedSections d" and edits = "proposedEdits (finalReview d)"
      and fbs = "globalFeedback (finalReview d)" and ag' = deepAgents
      and outline = demoOutline and uo = noUsage and lv = ?lv and subs = ?subs]
  have nn: "globalFeedback (finalReview d) = []" by (simp add: d(3) demoReview_def)
  have nr: "allReferences (generatedSections d) = []"
    by (simp add: d(4) allReferences_def demoDraft_def)
  from main d(1) have md0: "finalMarkdown d =
      applyEditsAndGenerateMarkdown (finalArticleTitle (finalReview d))
        (generatedSections d) (proposedEdits (finalReview d))
        (globalFeedback (finalReview d))" by blast
  from main nn nr have "applyEditsAndGenerateMarkdown (finalArticleTitle (finalReview d))
        (generatedSections d) (proposedEdits (finalReview d))
        (globalFeedback (finalReview d))
      = titleAndSections (finalArticleTitle (finalReview d)) (generatedSections d)
          (proposedEdits (finalReview d))" by blast
  with md0 have md1: "finalMarkdown d
      = titleAndSections (finalArticleTitle (finalReview d)) (generatedSections d)
          (proposedEdits (finalReview d))" by simp
  have "titleAndSections (finalArticleTitle (finalReview d)) (generatedSections d)
          (proposedEdits (finalReview d))
      = ''# T\<newline>\<newline>## A\<newline>\<newline>v1\<newline>\<newline>## B\<newline>\<newline>v1++\<newline>\<newline>''"
    by (simp add: d(3,4) demoReview_def demoDraft_def editedContent_def
        titleAndSections_def sectionBlock_def)
  with md1 have md: "finalMarkdown d
      = ''# T\<newline>\<newline>## A\<newline>\<newline>v1\<newline>\<newline>## B\<newline>\<newline>v1++\<newline>\<newline>''" by simp
  have lv: "map level (sections (articleOutline d)) = [1, 2]"
    by (simp add: d(2) demoOutline_def)
  from d(1) lv nn nr md1 md
  have part1: "\<exists>d. runPipeline demoAgents fairSchedule demoInput = Some (Inr d)
      \<and> map level (sections (articleOutline d)) = [1, 2]
      \<and> globalFeedback (finalReview d) = []
      \<and> allReferences (generatedSections d) = []
      \<and> finalMarkdown d
          = titleAndSections (finalArticleTitle (finalReview d)) (generatedSections d)
              (proposedEdits (finalReview d))
      \<and> finalMarkdown d
          = ''# T\<newline>\<newline>## A\<newline>\<newline>v1\<newline>\<newline>## B\<newline>\<newline>v1++\<newline>\<newline>''"
    by (intro exI [of _ d] conjI)
  have deep: "deepOutline = renest ?lv ?subs demoOutline" by (simp add: deepOutline_def)
  have o: "outliner demoAgents (subject demoInput) (customInstructions demoInput)
      = Inr (demoOutline, noUsage)" by (simp add: demoAgents_def)
  have o': "outliner deepAgents (subject demoInput) (customInstructions demoInput)
      = Inr (deepOutline, noUsage)" by (simp add: deepAgents_def)
  have strat: "\<forall>sec \<in> set (sections demoOutline). \<forall>prev.
      contentStrategist deepAgents (renest ?lv ?subs demoOutline) (renestSection ?lv ?subs sec)
        (customInstructions demoInput) prev
      = contentStrategist demoAgents demoOutline sec (customInstructions demoInput) prev"
    by (simp add: deepAgents_def demoAgents_def demoStrategist_def renestSection_def)
  have wr: "writer deepAgents = writer demoAgents" by (simp add: deepAgents_def)
  have ed: "editor deepAgents = editor demoAgents" by (simp add: deepAgents_def)
  have chief: "\<forall>plans cs. editorInChief deepAgents demoInput (renest ?lv ?subs demoOutline)
      plans cs = editorInChief demoAgents demoInput demoOutline plans cs"
    by (simp add: deepAgents_def demoAgents_def)
  from main o o' [unfolded deep] strat wr ed chief
  have same: "writeArticle deepAgents fairSchedule demoInput
      = writeArticle demoAgents fairSchedule demoInput" by blast
  from d(1) md have "writeArticle demoAgents fairSchedule demoInput
      = Some (Inr (''# T\<newline>\<newline>## A\<newline>\<newline>v1\<newline>\<newline>## B\<newline>\<newline>v1++\<newline>\<newline>'', totalCost (costs d)))"
    by (simp add: writeArticle_def)
  with same have part3: "\<exists>cost. writeArticle deepAgents fairSchedule demoInput
      = Some (Inr (''# T\<newline>\<newline>## A\<newline>\<newline>v1\<newline>\<newline>## B\<newline>\<newline>v1++\<newline>\<newline>'', cost))"
    by simp
  have lvd: "map level (sections deepOutline) = [3, 3]"
    by (simp add: deepOutline_def renest_def renestSection_def demoOutline_def)
  have sbd: "map subSections (sections deepOutline)
      = [Some [\<lparr>subHeading = ''A.1'', subLevel = 4\<rparr>],
         Some [\<lparr>subHeading = ''B.1'', subLevel = 4\<rparr>]]"
    by (simp add: deepOutline_def renest_def renestSection_def demoOutline_def)
  have sb0: "map subSections (sections demoOutline) = [None, None]"
    by (simp add: demoOutline_def)
  from part1 o o' lvd sbd sb0 same part3 show ?thesis by (intro conjI)
qed

text \<open>
  One section, no edit and one note: the renderer's document goes on after the section
  block, so it is not the title and the section blocks alone.
\<close>

theorem notes_follow_the_sections:
  "applyEditsAndGenerateMarkdown ''T'' [demoDraft ''A'' ''v1''] [] [''note'']
     = ''# T\<newline>\<newline>## A\<newline>\<newline>v1\<newline>\<newline>## Editorial Notes\<newline>\<newline>- note\<newline>\<newline>''
   \<and> titleAndSections ''T'' [demoDraft ''A'' ''v1''] []
     = ''# T\<newline>\<newline>## A\<newline>\<newline>v1\<newline>\<newline>''
   \<and> applyEditsAndGenerateMarkdown ''T'' [demoDraft ''A'' ''v1''] [] [''note'']
     \<noteq> titleAndSections ''T'' [demoDraft ''A'' ''v1''] []"
  by (simp add: applyEditsAndGenerateMarkdown_def titleAndSections_def sectionBlock_def
      appendSection_def appendFeedback_def allReferences_def editedContent_def
      demoDraft_def Let_def)

end
